theory Spec2Isabelle
  imports Complex_Main "HOL-Library.Log_Nat"
begin

section \<open>JavaScript numbers\<close>

text \<open>
  Every numeric value of the program is a JavaScript number. A number is modelled as a
  real, or one of the three non-finite values of the language. Finite arithmetic is
  exact: rounding to the nearest double, overflow of a finite result to an infinity and
  the sign of zero are not modelled. The non-finite cases of each operator follow the
  language: a division by zero gives an infinity or \<open>NaN\<close>, every comparison with
  \<open>NaN\<close> is false, and \<open>NaN\<close> and \<open>0\<close> are the falsy numbers.
\<close>

datatype jsnum = Fin real | PosInf | NegInf | NaN

fun jneg :: "jsnum \<Rightarrow> jsnum" where
  "jneg (Fin a) = Fin (- a)"
| "jneg PosInf = NegInf"
| "jneg NegInf = PosInf"
| "jneg NaN = NaN"

fun jadd :: "jsnum \<Rightarrow> jsnum \<Rightarrow> jsnum" where
  "jadd NaN _ = NaN"
| "jadd _ NaN = NaN"
| "jadd (Fin a) (Fin b) = Fin (a + b)"
| "jadd PosInf NegInf = NaN"
| "jadd NegInf PosInf = NaN"
| "jadd PosInf _ = PosInf"
| "jadd NegInf _ = NegInf"
| "jadd (Fin a) PosInf = PosInf"
| "jadd (Fin a) NegInf = NegInf"

definition jsub :: "jsnum \<Rightarrow> jsnum \<Rightarrow> jsnum" where
  "jsub a b = jadd a (jneg b)"

text \<open>The sign of a product or quotient with an infinite operand; zero counts as positive.\<close>

definition inf_signed :: "bool \<Rightarrow> jsnum" where
  "inf_signed positive = (if positive then PosInf else NegInf)"

fun jmul :: "jsnum \<Rightarrow> jsnum \<Rightarrow> jsnum" where
  "jmul NaN _ = NaN"
| "jmul _ NaN = NaN"
| "jmul (Fin a) (Fin b) = Fin (a * b)"
| "jmul PosInf PosInf = PosInf"
| "jmul PosInf NegInf = NegInf"
| "jmul NegInf PosInf = NegInf"
| "jmul NegInf NegInf = PosInf"
| "jmul PosInf (Fin b) = (if b = 0 then NaN else inf_signed (0 < b))"
| "jmul NegInf (Fin b) = (if b = 0 then NaN else inf_signed (b < 0))"
| "jmul (Fin a) PosInf = (if a = 0 then NaN else inf_signed (0 < a))"
| "jmul (Fin a) NegInf = (if a = 0 then NaN else inf_signed (a < 0))"

fun jdiv :: "jsnum \<Rightarrow> jsnum \<Rightarrow> jsnum" where
  "jdiv NaN _ = NaN"
| "jdiv _ NaN = NaN"
| "jdiv (Fin a) (Fin b) =
     (if b = 0 then (if a = 0 then NaN else inf_signed (0 < a)) else Fin (a / b))"
| "jdiv (Fin a) PosInf = Fin 0"
| "jdiv (Fin a) NegInf = Fin 0"
| "jdiv PosInf (Fin b) = inf_signed (0 \<le> b)"
| "jdiv NegInf (Fin b) = inf_signed (b < 0)"
| "jdiv PosInf _ = NaN"
| "jdiv NegInf _ = NaN"

fun jlt :: "jsnum \<Rightarrow> jsnum \<Rightarrow> bool" where
  "jlt NaN _ = False"
| "jlt _ NaN = False"
| "jlt (Fin a) (Fin b) = (a < b)"
| "jlt _ NegInf = False"
| "jlt PosInf _ = False"
| "jlt NegInf _ = True"
| "jlt (Fin a) PosInf = True"

fun jle :: "jsnum \<Rightarrow> jsnum \<Rightarrow> bool" where
  "jle NaN _ = False"
| "jle _ NaN = False"
| "jle (Fin a) (Fin b) = (a \<le> b)"
| "jle NegInf _ = True"
| "jle _ PosInf = True"
| "jle PosInf _ = False"
| "jle (Fin a) NegInf = False"

definition jgt :: "jsnum \<Rightarrow> jsnum \<Rightarrow> bool" where
  "jgt a b = jlt b a"

definition jge :: "jsnum \<Rightarrow> jsnum \<Rightarrow> bool" where
  "jge a b = jle b a"

text \<open>\<open>Math.abs\<close>, \<open>Math.sqrt\<close>, \<open>Math.log\<close>, \<open>Math.floor\<close>, \<open>Math.cos\<close>, \<open>Math.sin\<close>.\<close>

fun jabs :: "jsnum \<Rightarrow> jsnum" where
  "jabs (Fin a) = Fin \<bar>a\<bar>"
| "jabs PosInf = PosInf"
| "jabs NegInf = PosInf"
| "jabs NaN = NaN"

fun jsqrt :: "jsnum \<Rightarrow> jsnum" where
  "jsqrt (Fin a) = (if a < 0 then NaN else Fin (sqrt a))"
| "jsqrt PosInf = PosInf"
| "jsqrt NegInf = NaN"
| "jsqrt NaN = NaN"

fun jlog :: "jsnum \<Rightarrow> jsnum" where
  "jlog (Fin a) = (if a < 0 then NaN else if a = 0 then NegInf else Fin (ln a))"
| "jlog PosInf = PosInf"
| "jlog NegInf = NaN"
| "jlog NaN = NaN"

fun jfloor :: "jsnum \<Rightarrow> jsnum" where
  "jfloor (Fin a) = Fin (of_int \<lfloor>a\<rfloor>)"
| "jfloor x = x"

fun jcos :: "jsnum \<Rightarrow> jsnum" where
  "jcos (Fin a) = Fin (cos a)"
| "jcos _ = NaN"

fun jsin :: "jsnum \<Rightarrow> jsnum" where
  "jsin (Fin a) = Fin (sin a)"
| "jsin _ = NaN"

text \<open>\<open>Math.max\<close> and \<open>Math.min\<close> of two numbers: \<open>NaN\<close> when either is.\<close>

fun jmax :: "jsnum \<Rightarrow> jsnum \<Rightarrow> jsnum" where
  "jmax NaN _ = NaN"
| "jmax _ NaN = NaN"
| "jmax a b = (if jlt a b then b else a)"

fun jmin :: "jsnum \<Rightarrow> jsnum \<Rightarrow> jsnum" where
  "jmin NaN _ = NaN"
| "jmin _ NaN = NaN"
| "jmin a b = (if jlt b a then b else a)"

text \<open>\<open>Math.max(...xs)\<close>: the maximum of no number is \<open>-Infinity\<close>.\<close>

definition jmax_list :: "jsnum list \<Rightarrow> jsnum" where
  "jmax_list xs = foldl jmax NegInf xs"

text \<open>Truthiness of a number, and \<open>a || b\<close> on a number that may be absent.\<close>

fun truthy :: "jsnum \<Rightarrow> bool" where
  "truthy (Fin a) = (a \<noteq> 0)"
| "truthy NaN = False"
| "truthy _ = True"

fun or_default :: "jsnum option \<Rightarrow> jsnum \<Rightarrow> jsnum" where
  "or_default None d = d"
| "or_default (Some v) d = (if truthy v then v else d)"

definition jnat :: "nat \<Rightarrow> jsnum" where
  "jnat n = Fin (real n)"

text \<open>
  \<open>xs.slice(a, b)\<close> for indices within \<open>0 .. length\<close>; an end before the start gives
  the empty array.
\<close>

definition slice :: "'a list \<Rightarrow> nat \<Rightarrow> nat \<Rightarrow> 'a list" where
  "slice xs a b = take (b - a) (drop a xs)"

text \<open>
  The relative index of \<open>slice\<close> given as a number: truncated towards zero, \<open>NaN\<close> as
  0, a negative index counted from the end, clamped to \<open>0 .. length\<close>.
\<close>

fun slice_index :: "nat \<Rightarrow> jsnum \<Rightarrow> nat" where
  "slice_index len NaN = 0"
| "slice_index len NegInf = 0"
| "slice_index len PosInf = len"
| "slice_index len (Fin a) =
     (if a < 0 then nat (int len + \<lceil>a\<rceil>) else min (nat \<lfloor>a\<rfloor>) len)"

text \<open>\<open>xs.findIndex(p)\<close>: the first index whose element satisfies \<open>p\<close>, or -1.\<close>

fun findIndex :: "('a \<Rightarrow> bool) \<Rightarrow> 'a list \<Rightarrow> int" where
  "findIndex p [] = - 1"
| "findIndex p (x # xs) = (if p x then 0 else (let k = findIndex p xs in if k < 0 then - 1 else k + 1))"

text \<open>\<open>xs.reduce((a, b) => a + b)\<close> on a non-empty array, and the sum from 0.\<close>

definition reduce_add :: "jsnum list \<Rightarrow> jsnum" where
  "reduce_add xs = foldl jadd (hd xs) (tl xs)"

definition sum_from0 :: "jsnum list \<Rightarrow> jsnum" where
  "sum_from0 xs = foldl jadd (Fin 0) xs"

section \<open>Breath segmentation (\<open>WobbleAnalyzer.process\<close>, part 1)\<close>

text \<open>
  The breath objects of \<open>wobble.js\<close>. A breath is created with \<open>end\<close> and \<open>inspEnd\<close>
  equal to its start index and without \<open>endTime\<close>; closing it overwrites the two indices
  and sets \<open>endTime\<close>. \<open>currentBreath\<close> refers to an element of \<open>breaths\<close>; it is modelled
  as the position of that element, and a write through it as an update at that position.
\<close>

record breath =
  start :: nat
  end_index :: nat
  inspStart :: nat
  inspEnd :: nat
  startTime :: jsnum
  endTime :: "jsnum option"

record seg_state =
  breaths :: "breath list"
  inInspiration :: bool
  inspirationStart :: nat
  currentBreath :: "nat option"

definition seg_init :: seg_state where
  "seg_init = \<lparr>breaths = [], inInspiration = False, inspirationStart = 0, currentBreath = None\<rparr>"

definition rising :: "jsnum list \<Rightarrow> nat \<Rightarrow> bool" where
  "rising flowData i = (jgt (flowData ! i) (Fin 0) \<and> jle (flowData ! (i - 1)) (Fin 0))"

definition falling :: "jsnum list \<Rightarrow> nat \<Rightarrow> bool" where
  "falling flowData i = (jle (flowData ! i) (Fin 0) \<and> jgt (flowData ! (i - 1)) (Fin 0))"

definition close_breath :: "jsnum \<Rightarrow> nat \<Rightarrow> breath \<Rightarrow> breath" where
  "close_breath samplingRate i b =
     b\<lparr>inspEnd := i, end_index := i, endTime := Some (jdiv (jnat i) samplingRate)\<rparr>"

definition seg_step :: "jsnum list \<Rightarrow> jsnum \<Rightarrow> seg_state \<Rightarrow> nat \<Rightarrow> seg_state" where
  "seg_step flowData samplingRate st i =
     (if rising flowData i then
        st\<lparr>inspirationStart := i, inInspiration := True,
           currentBreath := Some (length (breaths st)),
           breaths := breaths st @
             [\<lparr>start = i, end_index = i, inspStart = i, inspEnd = i,
               startTime = jdiv (jnat i) samplingRate, endTime = None\<rparr>]\<rparr>
      else if falling flowData i then
        (case (inInspiration st, currentBreath st) of
           (True, Some c) \<Rightarrow>
             st\<lparr>breaths := (breaths st)[c := close_breath samplingRate i (breaths st ! c)],
                inInspiration := False\<rparr>
         | _ \<Rightarrow> st\<lparr>inInspiration := False\<rparr>)
      else st)"

text \<open>The loop \<open>for (let i = 1; i < flowData.length; i++)\<close>.\<close>

definition seg_loop :: "jsnum list \<Rightarrow> jsnum \<Rightarrow> nat \<Rightarrow> seg_state" where
  "seg_loop flowData samplingRate n = foldl (seg_step flowData samplingRate) seg_init [1..<n]"

definition segment :: "jsnum list \<Rightarrow> jsnum \<Rightarrow> breath list" where
  "segment flowData samplingRate = breaths (seg_loop flowData samplingRate (length flowData))"

text \<open>
  The segmentation rule in the words of the specification, for comparison with the loop:
  the breath that starts at the rising crossing \<open>i\<close>, when the next breath starts at
  \<open>nxt\<close> (or the waveform ends there), is closed at the first falling crossing strictly
  between \<open>i\<close> and \<open>nxt\<close>, and stays as it was created when there is none.
\<close>

definition breath_at :: "jsnum list \<Rightarrow> jsnum \<Rightarrow> nat \<Rightarrow> nat \<Rightarrow> breath" where
  "breath_at flowData samplingRate i nxt =
     (case List.find (falling flowData) [Suc i..<nxt] of
        None \<Rightarrow> \<lparr>start = i, end_index = i, inspStart = i, inspEnd = i,
                 startTime = jdiv (jnat i) samplingRate, endTime = None\<rparr>
      | Some j \<Rightarrow> \<lparr>start = i, end_index = j, inspStart = i, inspEnd = j,
                 startTime = jdiv (jnat i) samplingRate,
                 endTime = Some (jdiv (jnat j) samplingRate)\<rparr>)"

definition next_start :: "nat list \<Rightarrow> nat \<Rightarrow> nat \<Rightarrow> nat" where
  "next_start starts n k = (if Suc k < length starts then starts ! Suc k else n)"

text \<open>The state of the loop after the indices below \<open>n\<close>.\<close>

definition seg_inv :: "jsnum list \<Rightarrow> jsnum \<Rightarrow> nat \<Rightarrow> seg_state \<Rightarrow> bool" where
  "seg_inv flowData samplingRate n st =
     (let starts = filter (rising flowData) [1..<n] in
        length (breaths st) = length starts \<and>
        (\<forall>k < length starts.
           breaths st ! k = breath_at flowData samplingRate (starts ! k) (next_start starts n k)) \<and>
        currentBreath st = (if starts = [] then None else Some (length starts - 1)) \<and>
        (inInspiration st \<longleftrightarrow>
           starts \<noteq> [] \<and> List.find (falling flowData) [Suc (last starts)..<n] = None))"

definition example_flow :: "jsnum list" where
  "example_flow = [Fin (- 1), Fin 1, Fin (- 1), Fin 1, Fin (- 1)]"

section \<open>Configuration\<close>

text \<open>
  The analyzer reads five keys of the settings object; a key may be missing. The
  documented defaults are those of \<open>DEFAULT_SETTINGS\<close> in \<open>settings.js\<close>.
\<close>

record settings =
  flTopPercentage :: "jsnum option"
  flFlatnessTarget :: "jsnum option"
  arousalBaselineWindowSec :: "jsnum option"
  arousalRateIncreaseMin :: "jsnum option"
  arousalVolIncreaseMin :: "jsnum option"

definition DEFAULT_SETTINGS :: settings where
  "DEFAULT_SETTINGS =
     \<lparr>flTopPercentage = Some (Fin 0.5), flFlatnessTarget = Some (Fin 0.05),
      arousalBaselineWindowSec = Some (Fin 120), arousalRateIncreaseMin = Some (Fin 0.20),
      arousalVolIncreaseMin = Some (Fin 0.30)\<rparr>"

section \<open>Flow limitation (\<open>WobbleAnalyzer.process\<close>, part 1 continued)\<close>

definition clamp_0_100 :: "jsnum \<Rightarrow> jsnum" where
  "clamp_0_100 x = jmax (Fin 0) (jmin (Fin 100) x)"

definition mean_of :: "jsnum list \<Rightarrow> jsnum" where
  "mean_of xs = jdiv (reduce_add xs) (jnat (length xs))"

definition variance_of :: "jsnum list \<Rightarrow> jsnum" where
  "variance_of xs =
     (let m = mean_of xs in
      jdiv (foldl (\<lambda>sum val. let diff = jsub val m in jadd sum (jmul diff diff)) (Fin 0) xs)
           (jnat (length xs)))"

definition flatness_of :: "jsnum \<Rightarrow> jsnum \<Rightarrow> jsnum" where
  "flatness_of targetVar topHalfVariance =
     clamp_0_100 (jmul (jdiv (jsub targetVar topHalfVariance) targetVar) (Fin 100))"

definition normalized :: "jsnum list \<Rightarrow> jsnum list" where
  "normalized inspFlow = map (\<lambda>f. jdiv f (jmax_list inspFlow)) inspFlow"

text \<open>One pass of the loop over the breaths: the flatness pushed for a breath, if any.\<close>

definition breath_flatness :: "jsnum list \<Rightarrow> jsnum \<Rightarrow> jsnum \<Rightarrow> breath \<Rightarrow> jsnum option" where
  "breath_flatness flowData topPercent targetVar b =
     (let inspFlow = slice flowData (inspStart b) (inspEnd b) in
      if length inspFlow < 10 then None
      else let maxFlow = jmax_list inspFlow in
      if jlt maxFlow (Fin 0.1) then None
      else let normalizedFlow = normalized inspFlow;
               topHalfStart = findIndex (\<lambda>f. jgt f topPercent) normalizedFlow;
               topHalfEnd = int (length normalizedFlow)
                          - findIndex (\<lambda>f. jgt f topPercent) (rev normalizedFlow)
      in if 0 \<le> topHalfStart \<and> topHalfStart < topHalfEnd
         then Some (flatness_of targetVar
                (variance_of (slice normalizedFlow (nat topHalfStart) (nat topHalfEnd))))
         else None)"

definition flScores :: "jsnum list \<Rightarrow> settings \<Rightarrow> breath list \<Rightarrow> jsnum list" where
  "flScores flowData s bs =
     List.map_filter
       (breath_flatness flowData (or_default (flTopPercentage s) (Fin 0.5))
          (or_default (flFlatnessTarget s) (Fin 0.05))) bs"

definition flScore :: "jsnum list \<Rightarrow> jsnum \<Rightarrow> settings \<Rightarrow> jsnum" where
  "flScore flowData samplingRate s =
     (let scores = flScores flowData s (segment flowData samplingRate) in
      if 0 < length scores then mean_of scores else Fin 0)"

section \<open>Arousal estimation (\<open>WobbleAnalyzer.process\<close>, part 2)\<close>

record metric =
  time :: jsnum
  rate :: jsnum
  volume :: jsnum
  breathIndex :: nat

definition totalDurationHours :: "jsnum list \<Rightarrow> jsnum \<Rightarrow> jsnum" where
  "totalDurationHours flowData samplingRate =
     jdiv (jdiv (jnat (length flowData)) samplingRate) (Fin 3600)"

definition sum_abs :: "jsnum list \<Rightarrow> jsnum" where
  "sum_abs xs = foldl (\<lambda>sum f. jadd sum (jabs f)) (Fin 0) xs"

text \<open>One pass of the loop that fills \<open>breathMetrics\<close>, for the breath at \<open>i \<ge> 1\<close>.\<close>

definition breath_metric :: "jsnum list \<Rightarrow> jsnum \<Rightarrow> breath list \<Rightarrow> nat \<Rightarrow> metric option" where
  "breath_metric flowData samplingRate bs i =
     (let b = bs ! i; prevBreath = bs ! (i - 1);
          breathDuration = jsub (startTime b) (startTime prevBreath) in
      if jle breathDuration (Fin 0) \<or> jgt breathDuration (Fin 20) then None
      else Some \<lparr>time = startTime b, rate = jdiv (Fin 60) breathDuration,
                 volume = jdiv (sum_abs (slice flowData (inspStart b) (inspEnd b))) samplingRate,
                 breathIndex = i\<rparr>)"

definition breathMetrics :: "jsnum list \<Rightarrow> jsnum \<Rightarrow> breath list \<Rightarrow> metric list" where
  "breathMetrics flowData samplingRate bs =
     List.map_filter (breath_metric flowData samplingRate bs) [1..<length bs]"

definition baselineMetrics :: "jsnum \<Rightarrow> metric list \<Rightarrow> nat \<Rightarrow> metric list" where
  "baselineMetrics baselineWindow ms i =
     (let baselineStart =
            jmax (Fin 0)
              (jsub (jnat i) (jfloor (jdiv baselineWindow (jdiv (Fin 60) (rate (ms ! i))))))
      in slice ms (slice_index (length ms) baselineStart) i)"

definition rateIncrease :: "jsnum \<Rightarrow> metric list \<Rightarrow> nat \<Rightarrow> jsnum" where
  "rateIncrease baselineWindow ms i =
     (let base = baselineMetrics baselineWindow ms i;
          baselineRate = jdiv (foldl (\<lambda>sum m. jadd sum (rate m)) (Fin 0) base) (jnat (length base))
      in jdiv (jsub (rate (ms ! i)) baselineRate) baselineRate)"

definition volumeIncrease :: "jsnum \<Rightarrow> metric list \<Rightarrow> nat \<Rightarrow> jsnum" where
  "volumeIncrease baselineWindow ms i =
     (let base = baselineMetrics baselineWindow ms i;
          baselineVolume =
            jdiv (foldl (\<lambda>sum m. jadd sum (volume m)) (Fin 0) base) (jnat (length base))
      in jdiv (jsub (volume (ms ! i)) baselineVolume) baselineVolume)"

text \<open>
  The breath metric at \<open>i\<close> passes both tests of the loop body: at least five baseline
  metrics, and a rate or volume increase above its threshold.
\<close>

definition qualifies :: "settings \<Rightarrow> metric list \<Rightarrow> nat \<Rightarrow> bool" where
  "qualifies s ms i =
     (let baselineWindow = or_default (arousalBaselineWindowSec s) (Fin 120);
          minRateInc = or_default (arousalRateIncreaseMin s) (Fin 0.20);
          minVolInc = or_default (arousalVolIncreaseMin s) (Fin 0.30)
      in \<not> length (baselineMetrics baselineWindow ms i) < 5 \<and>
         (jgt (rateIncrease baselineWindow ms i) minRateInc \<or>
          jgt (volumeIncrease baselineWindow ms i) minVolInc))"

text \<open>\<open>arousalList\<close> holds the times of the recorded arousals.\<close>

definition arousal_step :: "settings \<Rightarrow> metric list \<Rightarrow> jsnum list \<Rightarrow> nat \<Rightarrow> jsnum list" where
  "arousal_step s ms arousalList i =
     (if qualifies s ms i then
        (let recentArousal =
               (0 < length arousalList \<and> jlt (jsub (time (ms ! i)) (last arousalList)) (Fin 15))
         in if \<not> recentArousal then arousalList @ [time (ms ! i)] else arousalList)
      else arousalList)"

definition arousalList :: "settings \<Rightarrow> metric list \<Rightarrow> jsnum list" where
  "arousalList s ms = foldl (arousal_step s ms) [] [0..<length ms]"

definition arousals :: "jsnum list \<Rightarrow> jsnum \<Rightarrow> settings \<Rightarrow> jsnum" where
  "arousals flowData samplingRate s =
     (let bs = segment flowData samplingRate in
      if 10 \<le> length bs \<and> jgt (totalDurationHours flowData samplingRate) (Fin 0)
      then jdiv (jnat (length (arousalList s (breathMetrics flowData samplingRate bs))))
                (totalDurationHours flowData samplingRate)
      else Fin 0)"

section \<open>Minute ventilation (\<open>WobbleAnalyzer.process\<close>, part 3)\<close>

record window_state =
  tidalVolume :: jsnum
  breathCount :: nat
  inInh :: bool

definition window_step :: "jsnum list \<Rightarrow> jsnum \<Rightarrow> window_state \<Rightarrow> nat \<Rightarrow> window_state" where
  "window_step window samplingRate st j =
     (let st1 = (if jgt (window ! j) (Fin 0) \<and> jle (window ! (j - 1)) (Fin 0)
                 then st\<lparr>breathCount := breathCount st + 1, inInh := True\<rparr> else st);
          st2 = (if inInh st1 \<and> jgt (window ! j) (Fin 0)
                 then st1\<lparr>tidalVolume :=
                        jadd (tidalVolume st1) (jdiv (jabs (window ! j)) samplingRate)\<rparr>
                 else st1)
      in if jle (window ! j) (Fin 0) then st2\<lparr>inInh := False\<rparr> else st2)"

definition window_vent :: "jsnum list \<Rightarrow> jsnum \<Rightarrow> jsnum" where
  "window_vent window samplingRate =
     (let st = foldl (window_step window samplingRate)
                 \<lparr>tidalVolume = Fin 0, breathCount = 0, inInh = False\<rparr> [1..<length window]
      in jdiv (jmul (tidalVolume st) (jnat (breathCount st))) (Fin 60))"

text \<open>
  The loop \<open>for (let i = 0; i < flowData.length - windowSize; i += stepSize)\<close>. With a
  step of zero or below the loop never ends once it is entered, so the loop is a partial
  function: \<open>None\<close> is a run that does not return.
\<close>

partial_function (option) mv_loop ::
  "jsnum list \<Rightarrow> jsnum \<Rightarrow> jsnum \<Rightarrow> jsnum \<Rightarrow> jsnum \<Rightarrow> jsnum list \<Rightarrow> jsnum list option" where
  "mv_loop flowData samplingRate windowSize stepSize i minuteVent =
     (if jlt i (jsub (jnat (length flowData)) windowSize) then
        mv_loop flowData samplingRate windowSize stepSize (jadd i stepSize)
          (minuteVent @
             [window_vent
                (slice flowData (slice_index (length flowData) i)
                   (slice_index (length flowData) (jadd i windowSize)))
                samplingRate])
      else Some minuteVent)"

definition minuteVent :: "jsnum list \<Rightarrow> jsnum \<Rightarrow> jsnum list option" where
  "minuteVent flowData samplingRate =
     mv_loop flowData samplingRate (jfloor (jmul (Fin 60) samplingRate))
       (jfloor (jmul (Fin 5) samplingRate)) (Fin 0) []"

section \<open>Regularity: sample entropy\<close>

definition mv_variance :: "jsnum list \<Rightarrow> jsnum" where
  "mv_variance mv =
     (let mvMean = mean_of mv in
      jdiv (foldl (\<lambda>sum val. jadd sum (jmul (jsub val mvMean) (jsub val mvMean))) (Fin 0) mv)
           (jnat (length mv)))"

definition tolerance :: "jsnum list \<Rightarrow> jsnum" where
  "tolerance mv = jmul (Fin 0.2) (jsqrt (mv_variance mv))"

text \<open>The innermost loop of \<open>countMatches\<close>: no offset \<open>k < m\<close> has a distance above \<open>r\<close>.\<close>

definition template_match :: "jsnum list \<Rightarrow> jsnum \<Rightarrow> nat \<Rightarrow> nat \<Rightarrow> nat \<Rightarrow> bool" where
  "template_match mv r m i j =
     list_all (\<lambda>k. \<not> jgt (jabs (jsub (mv ! (i + k)) (mv ! (j + k)))) r) [0..<m]"

definition countMatches :: "jsnum list \<Rightarrow> jsnum \<Rightarrow> nat \<Rightarrow> nat" where
  "countMatches mv r m =
     (let N = length mv in
      sum_list (map (\<lambda>i. length (filter (template_match mv r m i) [Suc i..<N - m])) [0..<N - m]))"

definition sampleEntropy :: "jsnum list \<Rightarrow> jsnum" where
  "sampleEntropy mv =
     (let B = countMatches mv (tolerance mv) 2; A = countMatches mv (tolerance mv) 3 in
      if B = 0 \<or> A = 0 then Fin 0 else jneg (jlog (jdiv (jnat A) (jnat B))))"

definition regularityScore :: "jsnum list \<Rightarrow> jsnum" where
  "regularityScore mv =
     clamp_0_100 (jsub (Fin 100) (jmul (jdiv (sampleEntropy mv) (Fin 2.5)) (Fin 100)))"

section \<open>Periodicity: the Fourier transform\<close>

type_synonym cplx = "jsnum \<times> jsnum"

text \<open>\<open>Math.pow(2, Math.ceil(Math.log2(N)))\<close> for a length \<open>N \<ge> 1\<close>.\<close>

definition pow2ceil :: "nat \<Rightarrow> nat" where
  "pow2ceil N = 2 ^ nat \<lceil>log 2 (real N)\<rceil>"

text \<open>The elements at the even and at the odd positions.\<close>

fun evens :: "'a list \<Rightarrow> 'a list" where
  "evens [] = []"
| "evens [x] = [x]"
| "evens (x # y # zs) = x # evens zs"

fun odds :: "'a list \<Rightarrow> 'a list" where
  "odds [] = []"
| "odds [x] = []"
| "odds (x # y # zs) = y # odds zs"

definition twiddle :: "nat \<Rightarrow> nat \<Rightarrow> cplx \<Rightarrow> cplx" where
  "twiddle N k c =
     (let angle = jdiv (jmul (jmul (Fin (- 2)) (Fin pi)) (jnat k)) (jnat N) in
      (jsub (jmul (jcos angle) (fst c)) (jmul (jsin angle) (snd c)),
       jadd (jmul (jcos angle) (snd c)) (jmul (jsin angle) (fst c))))"

definition cadd :: "cplx \<Rightarrow> cplx \<Rightarrow> cplx" where
  "cadd a t = (jadd (fst a) (fst t), jadd (snd a) (snd t))"

definition csub :: "cplx \<Rightarrow> cplx \<Rightarrow> cplx" where
  "csub a t = (jsub (fst a) (fst t), jsub (snd a) (snd t))"

definition butterfly :: "nat \<Rightarrow> cplx list \<Rightarrow> cplx list \<Rightarrow> cplx list" where
  "butterfly N even' odd' =
     map (\<lambda>k. cadd (even' ! k) (twiddle N k (odd' ! k))) [0..<N div 2] @
     map (\<lambda>k. csub (even' ! k) (twiddle N k (odd' ! k))) [0..<N div 2]"

function fft :: "cplx list \<Rightarrow> cplx list" where
  "fft x =
     (if length x \<le> 1 then x
      else if length x mod 2 \<noteq> 0
      then fft (x @ replicate (pow2ceil (length x) - length x) (Fin 0, Fin 0))
      else butterfly (length x) (fft (evens x)) (fft (odds x)))"
  by pat_completeness auto
termination
proof (relation "measure (\<lambda>x. if length x \<le> 1 then 0
                               else if length x mod 2 \<noteq> 0 then 2 * pow2ceil (length x) + 1
                               else 2 * length x)")
  have ge: "N \<le> pow2ceil N" for N
  proof -
    have "real N \<le> 2 ^ nat \<lceil>log 2 (real N)\<rceil>"
      by (rule power_of_nat_log_ge) simp
    then have "real N \<le> real (pow2ceil N)" by (simp add: pow2ceil_def)
    then show ?thesis by linarith
  qed
  have lt: "pow2ceil N < 2 * N" if N2: "2 \<le> N" for N
  proof -
    have "0 < log 2 (real N)" using N2 by simp
    then have "0 < \<lceil>log 2 (real N)\<rceil>" by linarith
    then have "\<lceil>log 2 (real N)\<rceil> = int (nat (\<lceil>log 2 (real N)\<rceil> - 1)) + 1" by simp
    then obtain c where c: "\<lceil>log 2 (real N)\<rceil> = int c + 1" by blast
    have "2 ^ c < N" using c ceiling_log_nat_eq_powr_iff[of 2 N c] N2 by simp
    moreover have "nat \<lceil>log 2 (real N)\<rceil> = Suc c" using c by simp
    ultimately show ?thesis by (simp add: pow2ceil_def)
  qed
  have ev: "even (pow2ceil N)" if "2 \<le> N" for N
  proof -
    have "0 < log 2 (real N)" using that by simp
    then have "0 < nat \<lceil>log 2 (real N)\<rceil>" by linarith
    then show ?thesis by (simp add: pow2ceil_def)
  qed
  have len_evens: "length (evens x) = (length x + 1) div 2" for x :: "cplx list"
    by (induction x rule: evens.induct) auto
  have len_odds: "length (odds x) = length x div 2" for x :: "cplx list"
    by (induction x rule: odds.induct) auto
  have half: "(if M \<le> 1 then 0 else if M mod 2 \<noteq> 0 then 2 * pow2ceil M + 1 else 2 * M)
                < 2 * (2 * M)"
    if M1: "1 \<le> M" for M
  proof (cases "M \<le> 1")
    case True
    then show ?thesis using M1 by simp
  next
    case False
    then have "pow2ceil M < 2 * M" using lt[of M] by simp
    then show ?thesis using False by simp
  qed
  show "wf (measure (\<lambda>x. if length x \<le> 1 then 0
                               else if length x mod 2 \<noteq> 0 then 2 * pow2ceil (length x) + 1
                               else 2 * length x))"
    by simp
  fix x :: "cplx list"
  assume a: "\<not> length x \<le> 1"
  {
    assume b: "length x mod 2 \<noteq> 0"
    have "length (x @ replicate (pow2ceil (length x) - length x) (Fin 0, Fin 0)) = pow2ceil (length x)"
      using ge[of "length x"] by simp
    moreover have "even (pow2ceil (length x))" "\<not> pow2ceil (length x) \<le> 1"
      using ev[of "length x"] ge[of "length x"] a by auto
    ultimately show "(x @ replicate (pow2ceil (length x) - length x) (Fin 0, Fin 0), x)
        \<in> measure (\<lambda>x. if length x \<le> 1 then 0
                               else if length x mod 2 \<noteq> 0 then 2 * pow2ceil (length x) + 1
                               else 2 * length x)"
      using a b by (simp add: even_iff_mod_2_eq_zero)
  }
  {
    assume b: "\<not> length x mod 2 \<noteq> 0"
    then obtain M where M: "length x = 2 * M" "1 \<le> M" using a by (auto simp: mod_2_eq_odd elim!: evenE)
    have e: "length (evens x) = M" and o: "length (odds x) = M"
      using M by (simp_all add: len_evens len_odds)
    have rhs: "(if length x \<le> 1 then 0
                else if length x mod 2 \<noteq> 0 then 2 * pow2ceil (length x) + 1
                else 2 * length x) = 2 * (2 * M)"
      using a b M by simp
    show "(evens x, x) \<in> measure (\<lambda>x. if length x \<le> 1 then 0
                               else if length x mod 2 \<noteq> 0 then 2 * pow2ceil (length x) + 1
                               else 2 * length x)"
      unfolding in_measure rhs e by (rule half[OF M(2)])
    show "(odds x, x) \<in> measure (\<lambda>x. if length x \<le> 1 then 0
                               else if length x mod 2 \<noteq> 0 then 2 * pow2ceil (length x) + 1
                               else 2 * length x)"
      unfolding in_measure rhs o by (rule half[OF M(2)])
  }
qed

text \<open>The equation of \<open>fft\<close> is applied by hand: as a rewrite rule it would unfold for ever.\<close>

declare fft.simps [simp del]

definition detrended :: "jsnum list \<Rightarrow> jsnum list" where
  "detrended mv = map (\<lambda>v. jsub v (mean_of mv)) mv"

definition magnitude :: "cplx \<Rightarrow> jsnum" where
  "magnitude c = jsqrt (jadd (jmul (fst c) (fst c)) (jmul (snd c) (snd c)))"

text \<open>
  The array \<open>power\<close> of the source: the magnitudes of the first \<open>n / 2\<close> bins of the transform of the padded
  series (\<open>slice(0, n / 2)\<close> truncates a fractional end). No step inside the \<open>try\<close>
  block throws, so its \<open>catch\<close> branch has no counterpart here.
\<close>

definition power_mv :: "jsnum list \<Rightarrow> jsnum list" where
  "power_mv mv =
     (let n = pow2ceil (length (detrended mv));
          paddedForFFT = detrended mv @ replicate (n - length (detrended mv)) (Fin 0);
          complex = map (\<lambda>v. (v, Fin 0)) paddedForFFT;
          spectrum = fft complex
      in map magnitude (take (n div 2) spectrum))"

definition freq :: "nat \<Rightarrow> nat \<Rightarrow> jsnum" where
  "freq n i = jdiv (jnat i) (jmul (jnat n) (Fin 5))"

definition totalPower :: "jsnum list \<Rightarrow> jsnum" where
  "totalPower mv = sum_from0 (power_mv mv)"

definition pbPower :: "jsnum list \<Rightarrow> jsnum" where
  "pbPower mv =
     (let n = pow2ceil (length (detrended mv)) in
      sum_from0
        (map snd
           (filter (\<lambda>(i, p). jge (freq n i) (Fin 0.01) \<and> jle (freq n i) (Fin 0.03))
              (enumerate 0 (power_mv mv)))))"

definition periodicityIndex :: "jsnum list \<Rightarrow> jsnum" where
  "periodicityIndex mv = jmin (Fin 100) (jmul (jdiv (pbPower mv) (totalPower mv)) (Fin 200))"

section \<open>The analyzer's result\<close>

text \<open>
  The four numbers that \<open>process\<close> returns. The source formats each with \<open>toFixed(1)\<close>,
  which prints a finite number with one decimal and a non-finite one by its name; the
  record holds the numbers that are formatted.
\<close>

record wobble_result =
  wobbleFL :: jsnum
  wobbleArousal :: jsnum
  wobbleRegularity :: jsnum
  wobblePeriodicity :: jsnum

definition wobble_process :: "jsnum list \<Rightarrow> jsnum \<Rightarrow> settings \<Rightarrow> wobble_result option" where
  "wobble_process flowData samplingRate s =
     (case minuteVent flowData samplingRate of
        None \<Rightarrow> None
      | Some mv \<Rightarrow>
          Some \<lparr>wobbleFL = flScore flowData samplingRate s,
                wobbleArousal = arousals flowData samplingRate s,
                wobbleRegularity = (if 0 < length mv then regularityScore mv else Fin 0),
                wobblePeriodicity = (if 0 < length mv then periodicityIndex mv else Fin 0)\<rparr>)"

section \<open>Errors of the runtime\<close>

text \<open>
  The errors with which a call of the program can end: the \<open>RangeError\<close> of a read past
  the end of a buffer or of an invalid date, and the \<open>TypeError\<close> of a property read on
  \<open>null\<close> or \<open>undefined\<close>.
\<close>

datatype error = RangeError | TypeError

section \<open>The analysis engine (\<open>engine.js\<close>)\<close>

text \<open>
  An analyzer object; any of its properties may be missing. Its \<open>process\<close> function
  either returns findings or throws, and may act on the world around it, which makes the
  order of the calls observable. What it throws is any value of the language: \<open>null\<close> or
  \<open>undefined\<close>, or a value on which \<open>.message\<close> can be read, which gives a text (an
  \<open>Error\<close> object) or \<open>undefined\<close> (a value without that property).
\<close>

record column =
  column_key :: string
  column_label :: string

datatype thrown = Thrown_nullish | Thrown_value "string option"

record ('r, 'w) analyzer =
  tool_id :: "string option"
  name :: "string option"
  process :: "(jsnum list \<Rightarrow> jsnum \<Rightarrow> settings \<Rightarrow> 'w \<Rightarrow> (thrown + 'r) \<times> 'w) option"
  tableColumns :: "column list option"

text \<open>An entry of the result object: the findings, or the object \<open>{ error: error.message }\<close>.\<close>

datatype 'r entry = Findings 'r | Error_entry "string option"



text \<open>
  The \<open>try\<close> statement with its \<open>catch\<close>. A call of a missing \<open>process\<close> throws a
  \<open>TypeError\<close> object, which is caught like any thrown value. The \<open>catch\<close> block reads
  \<open>error.message\<close>: on a thrown \<open>null\<close> or \<open>undefined\<close> that read throws a \<open>TypeError\<close>
  which nothing catches.
\<close>

definition run_tool ::
  "('r, 'w) analyzer \<Rightarrow> jsnum list \<Rightarrow> jsnum \<Rightarrow> settings \<Rightarrow> 'w \<Rightarrow> (error + 'r entry) \<times> 'w" where
  "run_tool tool flowData samplingRate currentSettings w =
     (case process tool of
        None \<Rightarrow> (Inr (Error_entry (Some ''tool.process is not a function'')), w)
      | Some f \<Rightarrow>
          (case f flowData samplingRate currentSettings w of
             (Inr findings, w') \<Rightarrow> (Inr (Findings findings), w')
           | (Inl Thrown_nullish, w') \<Rightarrow> (Inl TypeError, w')
           | (Inl (Thrown_value message), w') \<Rightarrow> (Inr (Error_entry message), w')))"




text \<open>The world after the calls of the analyzers of a list, in the order of the list.\<close>

definition world_after ::
  "('r, 'w) analyzer list \<Rightarrow> jsnum list \<Rightarrow> jsnum \<Rightarrow> settings \<Rightarrow> 'w \<Rightarrow> 'w" where
  "world_after tools flowData samplingRate currentSettings w =
     foldl (\<lambda>w tool. snd (run_tool tool flowData samplingRate currentSettings w)) w tools"

section \<open>The EDF parser (\<open>edf.js\<close>)\<close>

text \<open>
  The buffer is a list of bytes. \<open>TextDecoder('ascii')\<close> turns each byte into one
  character, so a decoded field is the list of its bytes; the white space that \<open>trim\<close>
  removes is the tab, the line and form feeds, the carriage return, the space and the
  no-break space (byte \<open>0xA0\<close>). The one error the parser can raise is the
  \<open>RangeError\<close> of the runtime: a typed array or a \<open>getInt16\<close> that reaches past the
  end of the buffer, and \<open>toISOString\<close> on an invalid date.
\<close>

definition ebind :: "error + 'a \<Rightarrow> ('a \<Rightarrow> error + 'b) \<Rightarrow> error + 'b" where
  "ebind m f = (case m of Inl e \<Rightarrow> Inl e | Inr x \<Rightarrow> f x)"

definition isWhiteSpace :: "char \<Rightarrow> bool" where
  "isWhiteSpace c =
     (c \<in> set [CHR 0x09, CHR 0x0A, CHR 0x0B, CHR 0x0C, CHR 0x0D, CHR 0x20, CHR 0xA0])"

definition trim :: "string \<Rightarrow> string" where
  "trim s = rev (dropWhile isWhiteSpace (rev (dropWhile isWhiteSpace s)))"

definition getStr :: "char list \<Rightarrow> nat \<Rightarrow> nat \<Rightarrow> error + string" where
  "getStr buffer offset len =
     (if offset + len \<le> length buffer then Inr (trim (take len (drop offset buffer)))
      else Inl RangeError)"

subsection \<open>\<open>parseInt\<close> and \<open>parseFloat\<close>\<close>

definition isDigit :: "char \<Rightarrow> bool" where
  "isDigit c = (48 \<le> (of_char c :: nat) \<and> (of_char c :: nat) \<le> 57)"

definition isHexDigit :: "char \<Rightarrow> bool" where
  "isHexDigit c =
     (isDigit c \<or> (65 \<le> (of_char c :: nat) \<and> (of_char c :: nat) \<le> 70)
                \<or> (97 \<le> (of_char c :: nat) \<and> (of_char c :: nat) \<le> 102))"

definition digit_value :: "char \<Rightarrow> nat" where
  "digit_value c =
     (let v = (of_char c :: nat) in
      if v \<le> 57 then v - 48 else if v \<le> 70 then v - 55 else v - 87)"

definition digits_value :: "nat \<Rightarrow> string \<Rightarrow> nat" where
  "digits_value radix ds = foldl (\<lambda>a c. a * radix + digit_value c) 0 ds"

text \<open>
  \<open>parseInt(s)\<close> without a radix: leading white space, a sign, \<open>0x\<close> for base 16, then
  the longest run of digits; \<open>None\<close> is \<open>NaN\<close>.
\<close>

definition parseInt :: "string \<Rightarrow> int option" where
  "parseInt s =
     (let s1 = dropWhile isWhiteSpace s;
          negative = (take 1 s1 = ''-'');
          s2 = (if take 1 s1 = ''-'' \<or> take 1 s1 = ''+'' then drop 1 s1 else s1);
          hex = (take 2 s2 = ''0x'' \<or> take 2 s2 = ''0X'');
          s3 = (if hex then drop 2 s2 else s2);
          ds = takeWhile (if hex then isHexDigit else isDigit) s3
      in if ds = [] then None
         else Some ((if negative then - 1 else 1) * int (digits_value (if hex then 16 else 10) ds)))"

text \<open>
  \<open>parseFloat(s)\<close>: the value of the longest prefix that is a decimal literal (a sign,
  then \<open>Infinity\<close>, or digits with an optional fraction and an optional exponent).
\<close>

definition exponent_of :: "string \<Rightarrow> int" where
  "exponent_of r =
     (if take 1 r = ''e'' \<or> take 1 r = ''E'' then
        (let r1 = drop 1 r;
             negative = (take 1 r1 = ''-'');
             r2 = (if take 1 r1 = ''-'' \<or> take 1 r1 = ''+'' then drop 1 r1 else r1);
             ds = takeWhile isDigit r2
         in if ds = [] then 0 else (if negative then - 1 else 1) * int (digits_value 10 ds))
      else 0)"

definition scale10 :: "real \<Rightarrow> int \<Rightarrow> real" where
  "scale10 m e = (if 0 \<le> e then m * 10 ^ nat e else m / 10 ^ nat (- e))"

definition parseFloat :: "string \<Rightarrow> jsnum" where
  "parseFloat s =
     (let s1 = dropWhile isWhiteSpace s;
          negative = (take 1 s1 = ''-'');
          s2 = (if take 1 s1 = ''-'' \<or> take 1 s1 = ''+'' then drop 1 s1 else s1);
          ip = takeWhile isDigit s2;
          r1 = dropWhile isDigit s2;
          fp = (if take 1 r1 = ''.'' then takeWhile isDigit (drop 1 r1) else []);
          r2 = (if take 1 r1 = ''.'' then dropWhile isDigit (drop 1 r1) else r1);
          mantissa = real (digits_value 10 ip) + real (digits_value 10 fp) / 10 ^ length fp
      in if take 8 s2 = ''Infinity'' then (if negative then NegInf else PosInf)
         else if ip = [] \<and> fp = [] then NaN
         else Fin ((if negative then - 1 else 1) * scale10 mantissa (exponent_of r2)))"

definition jint :: "int option \<Rightarrow> jsnum" where
  "jint v = (case v of None \<Rightarrow> NaN | Some k \<Rightarrow> Fin (of_int k))"

text \<open>The number of passes of \<open>for (let i = 0; i < n; i++)\<close> for the value of \<open>parseInt\<close>.\<close>

definition loop_count :: "int option \<Rightarrow> nat" where
  "loop_count v = (case v of None \<Rightarrow> 0 | Some k \<Rightarrow> nat k)"

subsection \<open>The file header\<close>

fun split_on :: "char \<Rightarrow> string \<Rightarrow> string list" where
  "split_on c [] = [[]]"
| "split_on c (x # xs) =
     (if x = c then [] # split_on c xs
      else (case split_on c xs of p # ps \<Rightarrow> (x # p) # ps | [] \<Rightarrow> [[x]]))"

text \<open>\<open>parseInt(parts[k])\<close>; a missing part is \<open>undefined\<close>, which parses to \<open>NaN\<close>.\<close>

definition part_int :: "string list \<Rightarrow> nat \<Rightarrow> int option" where
  "part_int parts k = (if k < length parts then parseInt (parts ! k) else None)"

definition or_zero :: "int option \<Rightarrow> int" where
  "or_zero v = (case v of None \<Rightarrow> 0 | Some k \<Rightarrow> k)"

text \<open>
  The arguments of the \<open>Date\<close> constructor. The text of \<open>recordingDate\<close> is their
  rendering by \<open>toISOString\<close> in the time zone of the machine; the record keeps the
  arguments.
\<close>

record date_args =
  year :: int
  monthIndex :: int
  day :: int
  hours :: int
  minutes :: int
  seconds :: int

record header =
  version :: string
  patientId :: string
  recordingId :: string
  startDate :: string
  startTime :: string
  headerBytes :: "int option"
  reserved :: string
  numDataRecords :: "int option"
  recordDurationSec :: jsnum
  numSignals :: "int option"
  recordingDate :: date_args
  totalDurationMinutes :: jsnum

text \<open>
  \<open>new Date(...).toISOString()\<close> throws when the date is invalid, which is when the
  year, the month or the day is \<open>NaN\<close>; the three time fields fall back to 0.
\<close>

definition recording_date :: "string \<Rightarrow> string \<Rightarrow> error + date_args" where
  "recording_date dateText timeText =
     (let dateParts = split_on CHR ''.'' dateText;
          year0 = part_int dateParts 2;
          year1 = (case year0 of None \<Rightarrow> None
                   | Some y \<Rightarrow> Some (y + (if y < 85 then 2000 else 1900)));
          timeParts = split_on CHR ''.'' timeText
      in case (year1, part_int dateParts 1, part_int dateParts 0) of
           (Some y, Some m, Some d) \<Rightarrow>
             Inr \<lparr>year = y, monthIndex = m - 1, day = d,
                  hours = or_zero (part_int timeParts 0),
                  minutes = or_zero (part_int timeParts 1),
                  seconds = or_zero (part_int timeParts 2)\<rparr>
         | _ \<Rightarrow> Inl RangeError)"

definition parseHeader :: "char list \<Rightarrow> error + header" where
  "parseHeader buffer =
     ebind (getStr buffer 0 8) (\<lambda>version.
     ebind (getStr buffer 8 80) (\<lambda>patientId.
     ebind (getStr buffer 88 80) (\<lambda>recordingId.
     ebind (getStr buffer 168 8) (\<lambda>startDate.
     ebind (getStr buffer 176 8) (\<lambda>startTime.
     ebind (getStr buffer 184 8) (\<lambda>headerBytes.
     ebind (getStr buffer 192 44) (\<lambda>reserved.
     ebind (getStr buffer 236 8) (\<lambda>numDataRecords.
     ebind (getStr buffer 244 8) (\<lambda>recordDurationSec.
     ebind (getStr buffer 252 4) (\<lambda>numSignals.
     ebind (recording_date startDate startTime) (\<lambda>recordingDate.
       Inr \<lparr>version = version, patientId = patientId, recordingId = recordingId,
            startDate = startDate, startTime = startTime,
            headerBytes = parseInt headerBytes, reserved = reserved,
            numDataRecords = parseInt numDataRecords,
            recordDurationSec = parseFloat recordDurationSec,
            numSignals = parseInt numSignals,
            recordingDate = recordingDate,
            totalDurationMinutes =
              jdiv (jmul (jint (parseInt numDataRecords)) (parseFloat recordDurationSec))
                   (Fin 60)\<rparr>)))))))))))"

subsection \<open>The signal headers\<close>

record signal =
  label :: string
  transducer :: string
  physicalDimension :: string
  physicalMin :: jsnum
  physicalMax :: jsnum
  digitalMin :: "int option"
  digitalMax :: "int option"
  prefiltering :: string
  numSamplesPerRecord :: "int option"
  samplingRate :: jsnum
  scaleFactor :: jsnum
  physicalValues :: "jsnum list"

text \<open>One block of the signal headers: an entry of \<open>width\<close> bytes for each of \<open>n\<close> signals.\<close>

fun read_fields :: "char list \<Rightarrow> nat \<Rightarrow> nat \<Rightarrow> nat list \<Rightarrow> error + string list" where
  "read_fields buffer offset width [] = Inr []"
| "read_fields buffer offset width (i # is) =
     ebind (getStr buffer (offset + i * width) width) (\<lambda>x.
     ebind (read_fields buffer offset width is) (\<lambda>xs. Inr (x # xs)))"

definition read_block :: "char list \<Rightarrow> nat \<Rightarrow> nat \<Rightarrow> nat \<Rightarrow> error + string list" where
  "read_block buffer offset n width = read_fields buffer offset width [0..<n]"

definition parseSignalHeaders :: "char list \<Rightarrow> header \<Rightarrow> error + signal list" where
  "parseSignalHeaders buffer h =
     (let n = loop_count (numSignals h);
          o1 = 256;
          o2 = o1 + n * 16;
          o3 = o2 + n * 80;
          o4 = o3 + n * 8;
          o5 = o4 + n * 8;
          o6 = o5 + n * 8;
          o7 = o6 + n * 8;
          o8 = o7 + n * 8;
          o9 = o8 + n * 80
      in
     ebind (read_block buffer o1 n 16) (\<lambda>labels.
     ebind (read_block buffer o2 n 80) (\<lambda>transducers.
     ebind (read_block buffer o3 n 8) (\<lambda>physicalDimensions.
     ebind (read_block buffer o4 n 8) (\<lambda>physicalMins.
     ebind (read_block buffer o5 n 8) (\<lambda>physicalMaxs.
     ebind (read_block buffer o6 n 8) (\<lambda>digitalMins.
     ebind (read_block buffer o7 n 8) (\<lambda>digitalMaxs.
     ebind (read_block buffer o8 n 80) (\<lambda>prefilterings.
     ebind (read_block buffer o9 n 8) (\<lambda>numSamples.
       Inr (map (\<lambda>i.
         \<lparr>label = labels ! i,
          transducer = transducers ! i,
          physicalDimension = physicalDimensions ! i,
          physicalMin = parseFloat (physicalMins ! i),
          physicalMax = parseFloat (physicalMaxs ! i),
          digitalMin = parseInt (digitalMins ! i),
          digitalMax = parseInt (digitalMaxs ! i),
          prefiltering = prefilterings ! i,
          numSamplesPerRecord = parseInt (numSamples ! i),
          samplingRate = jdiv (jint (parseInt (numSamples ! i))) (recordDurationSec h),
          scaleFactor =
            jdiv (jsub (parseFloat (physicalMaxs ! i)) (parseFloat (physicalMins ! i)))
                 (jsub (jint (parseInt (digitalMaxs ! i))) (jint (parseInt (digitalMins ! i)))),
          physicalValues = []\<rparr>) [0..<n])))))))))))"

subsection \<open>The data records\<close>

text \<open>The signed 16-bit integer stored little-endian at byte \<open>i\<close>.\<close>

definition int16_at :: "char list \<Rightarrow> nat \<Rightarrow> int" where
  "int16_at buffer i =
     (let v = (of_char (buffer ! i) :: nat) + 256 * (of_char (buffer ! (i + 1)) :: nat)
      in if v < 32768 then int v else int v - 65536)"

text \<open>
  \<open>view.getInt16(offset, true)\<close>: an offset that is \<open>NaN\<close> reads at 0, a negative one
  and one within the last byte or beyond raise.
\<close>

definition getInt16 :: "char list \<Rightarrow> int option \<Rightarrow> error + int" where
  "getInt16 buffer offset =
     (case offset of
        None \<Rightarrow> (if 2 \<le> length buffer then Inr (int16_at buffer 0) else Inl RangeError)
      | Some k \<Rightarrow>
          (if 0 \<le> k \<and> nat k + 2 \<le> length buffer then Inr (int16_at buffer (nat k))
           else Inl RangeError))"

definition physVal :: "signal \<Rightarrow> int \<Rightarrow> jsnum" where
  "physVal sg digitalValue =
     jadd (jmul (jsub (Fin (of_int digitalValue)) (jint (digitalMin sg))) (scaleFactor sg))
          (physicalMin sg)"

text \<open>
  The three nested loops. The inner loop returns the values it pushes and the offset it
  reaches; the loop over the signals appends them to each signal's \<open>physicalValues\<close>.
\<close>

fun read_samples ::
  "char list \<Rightarrow> signal \<Rightarrow> int option \<Rightarrow> nat \<Rightarrow> error + (jsnum list \<times> int option)" where
  "read_samples buffer sg offset 0 = Inr ([], offset)"
| "read_samples buffer sg offset (Suc k) =
     ebind (getInt16 buffer offset) (\<lambda>digitalValue.
     ebind (read_samples buffer sg (map_option (\<lambda>off. off + 2) offset) k) (\<lambda>(vs, offset').
       Inr (physVal sg digitalValue # vs, offset')))"

fun read_signals ::
  "char list \<Rightarrow> signal list \<Rightarrow> int option \<Rightarrow> error + (signal list \<times> int option)" where
  "read_signals buffer [] offset = Inr ([], offset)"
| "read_signals buffer (sg # sgs) offset =
     ebind (read_samples buffer sg offset (loop_count (numSamplesPerRecord sg))) (\<lambda>(vs, offset').
     ebind (read_signals buffer sgs offset') (\<lambda>(sgs', offset'').
       Inr (sg\<lparr>physicalValues := physicalValues sg @ vs\<rparr> # sgs', offset'')))"

fun read_records ::
  "char list \<Rightarrow> signal list \<Rightarrow> int option \<Rightarrow> nat \<Rightarrow> error + (signal list \<times> int option)" where
  "read_records buffer sgs offset 0 = Inr (sgs, offset)"
| "read_records buffer sgs offset (Suc r) =
     ebind (read_signals buffer sgs offset) (\<lambda>(sgs', offset').
       read_records buffer sgs' offset' r)"

subsection \<open>\<open>EDFParser.parse\<close>\<close>

text \<open>
  \<open>toLowerCase\<close> on the decoded characters, byte by byte: the letters \<open>A\<close> to \<open>Z\<close>, and
  the capital letters that the bytes from \<open>0x80\<close> stand for, whose small letters are
  bytes as well.
\<close>

definition lower_byte :: "char \<Rightarrow> char" where
  "lower_byte c =
     (let v = (of_char c :: nat) in
      if (65 \<le> v \<and> v \<le> 90) \<or> (192 \<le> v \<and> v \<le> 222 \<and> v \<noteq> 215) then char_of (v + 32)
      else if v = 138 \<or> v = 140 \<or> v = 142 then char_of (v + 16)
      else if v = 159 then char_of (255 :: nat)
      else c)"

definition toLowerCase :: "string \<Rightarrow> string" where
  "toLowerCase s = map lower_byte s"

definition includes_text :: "string \<Rightarrow> string \<Rightarrow> bool" where
  "includes_text s sub = list_ex (\<lambda>i. take (length sub) (drop i s) = sub) [0..<Suc (length s)]"

definition isFlowLabel :: "signal \<Rightarrow> bool" where
  "isFlowLabel sg =
     (includes_text (toLowerCase (label sg)) ''flow'' \<or>
      includes_text (toLowerCase (label sg)) ''flw'')"

record recording =
  metadata :: header
  signals :: "signal list"
  flowSignal :: "signal option"

definition parse :: "char list \<Rightarrow> error + recording" where
  "parse buffer =
     ebind (parseHeader buffer) (\<lambda>h.
     ebind (parseSignalHeaders buffer h) (\<lambda>sgs.
     ebind (read_records buffer sgs (headerBytes h) (loop_count (numDataRecords h)))
       (\<lambda>(sgs', offset').
         Inr \<lparr>metadata = h, signals = sgs', flowSignal = List.find isFlowLabel sgs'\<rparr>)))"

text \<open>A waveform that ends while its only breath is open.\<close>

definition open_flow :: "jsnum list" where
  "open_flow = [Fin (- 1), Fin 1]"

text \<open>
  The count of claim C8 in its own words, for comparison with \<open>countMatches\<close>: the
  pairs \<open>i < j\<close> whose templates of length \<open>m\<close> both lie within the series
  (\<open>j + m \<le> N\<close>) and are within \<open>r\<close> of each other at every offset.
\<close>

definition spec_countMatches :: "jsnum list \<Rightarrow> jsnum \<Rightarrow> nat \<Rightarrow> nat" where
  "spec_countMatches mv r m =
     length (filter (\<lambda>(i, j). i < j \<and> j + m \<le> length mv \<and>
                       list_all (\<lambda>k. jle (jabs (jsub (mv ! (i + k)) (mv ! (j + k)))) r) [0..<m])
               (List.product [0..<length mv] [0..<length mv]))"

definition level_series :: "jsnum list" where
  "level_series = [Fin 1, Fin 1, Fin 1, Fin 1, Fin 1]"

text \<open>A waveform of 61 samples without flow: at 1 Hz it fills exactly one window.\<close>

definition still_flow :: "jsnum list" where
  "still_flow = replicate 61 (Fin 0)"

text \<open>What a magnitude can be: a number that is not negative, \<open>Infinity\<close> or \<open>NaN\<close>.\<close>

fun non_negative :: "jsnum \<Rightarrow> bool" where
  "non_negative (Fin a) = (0 \<le> a)"
| "non_negative NegInf = False"
| "non_negative _ = True"

text \<open>
  The flow-limitation result of claim C5 in its own words, for comparison with
  \<open>flScore\<close>: a breath counts only when the last index whose normalized value exceeds
  the threshold lies after the first one.
\<close>

definition spec_top_span :: "jsnum \<Rightarrow> jsnum list \<Rightarrow> (nat \<times> nat) option" where
  "spec_top_span topPercent xs =
     (case filter (\<lambda>i. jgt (xs ! i) topPercent) [0..<length xs] of
        [] \<Rightarrow> None
      | i # rest \<Rightarrow> Some (i, last (i # rest)))"

definition claimed_breath_flatness ::
  "jsnum list \<Rightarrow> jsnum \<Rightarrow> jsnum \<Rightarrow> breath \<Rightarrow> jsnum option" where
  "claimed_breath_flatness flowData topPercent targetVar b =
     (let inspFlow = slice flowData (inspStart b) (inspEnd b) in
      if length inspFlow < 10 \<or> jlt (jmax_list inspFlow) (Fin 0.1) then None
      else case spec_top_span topPercent (normalized inspFlow) of
             None \<Rightarrow> None
           | Some (lo, hi) \<Rightarrow>
               if lo < hi
               then Some (flatness_of targetVar
                      (variance_of (map ((!) (normalized inspFlow)) [lo..<Suc hi])))
               else None)"

definition claimed_flScore :: "jsnum list \<Rightarrow> jsnum \<Rightarrow> settings \<Rightarrow> jsnum" where
  "claimed_flScore flowData sr s =
     (let scores = List.map_filter
            (claimed_breath_flatness flowData (or_default (flTopPercentage s) (Fin 0.5))
               (or_default (flFlatnessTarget s) (Fin 0.05)))
            (segment flowData sr)
      in if scores = [] then Fin 0 else mean_of scores)"

definition spike_flow :: "jsnum list" where
  "spike_flow = [Fin (- 1), Fin 1, Fin 1, Fin 1, Fin 1, Fin 1, Fin 10, Fin 1, Fin 1, Fin 1, Fin 1,
                 Fin (- 1)]"

definition spike_breath :: breath where
  "spike_breath = \<lparr>start = 1, end_index = 11, inspStart = 1, inspEnd = 11,
                    startTime = Fin 1, endTime = Some (Fin 11)\<rparr>"

text \<open>\<open>arousalList\<close> after the loop has passed the metrics below \<open>k\<close>.\<close>

definition arousal_prefix :: "settings \<Rightarrow> metric list \<Rightarrow> nat \<Rightarrow> jsnum list" where
  "arousal_prefix s ms k = foldl (arousal_step s ms) [] [0..<k]"

text \<open>No recorded arousal is less than 15 seconds after the one recorded before it.\<close>

definition spaced :: "jsnum list \<Rightarrow> bool" where
  "spaced xs = (\<forall>k. Suc k < length xs \<longrightarrow> \<not> jlt (jsub (xs ! Suc k) (xs ! k)) (Fin 15))"

text \<open>
  A waveform at 1 Hz with eleven breaths: five a breath every 4 seconds, then two
  3 seconds after the breath before, then four at 4 seconds again; and its metrics.
\<close>

definition arousal_flow :: "jsnum list" where
  "arousal_flow =
     [Fin (- 1)] @
     concat (replicate 5 [Fin 1, Fin 1, Fin (- 1), Fin (- 1)]) @
     concat (replicate 2 [Fin 1, Fin 1, Fin (- 1)]) @
     concat (replicate 4 [Fin 1, Fin 1, Fin (- 1), Fin (- 1)])"

definition arousal_metrics :: "metric list" where
  "arousal_metrics =
     [\<lparr>time = Fin 5, rate = Fin 15, volume = Fin 2, breathIndex = 1\<rparr>,
      \<lparr>time = Fin 9, rate = Fin 15, volume = Fin 2, breathIndex = 2\<rparr>,
      \<lparr>time = Fin 13, rate = Fin 15, volume = Fin 2, breathIndex = 3\<rparr>,
      \<lparr>time = Fin 17, rate = Fin 15, volume = Fin 2, breathIndex = 4\<rparr>,
      \<lparr>time = Fin 21, rate = Fin 15, volume = Fin 2, breathIndex = 5\<rparr>,
      \<lparr>time = Fin 24, rate = Fin 20, volume = Fin 2, breathIndex = 6\<rparr>,
      \<lparr>time = Fin 27, rate = Fin 20, volume = Fin 2, breathIndex = 7\<rparr>,
      \<lparr>time = Fin 31, rate = Fin 15, volume = Fin 2, breathIndex = 8\<rparr>,
      \<lparr>time = Fin 35, rate = Fin 15, volume = Fin 2, breathIndex = 9\<rparr>,
      \<lparr>time = Fin 39, rate = Fin 15, volume = Fin 2, breathIndex = 10\<rparr>]"






subsection \<open>The layout of the data records\<close>

text \<open>
  The number of samples of a signal in one data record is the number of passes of the
  inner loop, and a data record holds that many 16-bit integers for each signal in turn.
  \<open>sample_offset\<close> is where sample \<open>s\<close> of signal \<open>c\<close> in record \<open>r\<close> lies
  when the data start at byte \<open>H\<close>: after \<open>r\<close> whole records and the samples of the
  signals before \<open>c\<close>.
\<close>

definition samples_count :: "signal \<Rightarrow> nat" where
  "samples_count sg = loop_count (numSamplesPerRecord sg)"

definition record_samples :: "signal list \<Rightarrow> nat" where
  "record_samples sgs = sum_list (map samples_count sgs)"

definition sample_offset :: "nat \<Rightarrow> signal list \<Rightarrow> nat \<Rightarrow> nat \<Rightarrow> nat \<Rightarrow> nat" where
  "sample_offset H sgs c r s =
     H + 2 * (r * record_samples sgs + record_samples (take c sgs) + s)"

text \<open>
  The values that one pass of the loop over the signals appends to signal \<open>c\<close>, when
  the record starts at byte \<open>off\<close>; and a signal without its waveform, which is what the
  loops leave unchanged.
\<close>

definition record_values :: "char list \<Rightarrow> signal list \<Rightarrow> nat \<Rightarrow> nat \<Rightarrow> jsnum list" where
  "record_values buffer sgs off c =
     map (\<lambda>s. physVal (sgs ! c) (int16_at buffer (off + 2 * (record_samples (take c sgs) + s))))
         [0..<samples_count (sgs ! c)]"

definition strip :: "signal \<Rightarrow> signal" where
  "strip sg = sg\<lparr>physicalValues := []\<rparr>"

subsection \<open>An example recording\<close>

text \<open>
  A header field is its text, filled with spaces to the width of the field; a header is
  a sequence of fields. \<open>field_at\<close> finds the field that starts at a byte offset and
  has the given width, \<open>fits\<close> says that no text is longer than its field, and a text
  is \<open>clean\<close> when \<open>trim\<close> leaves it as it is.
\<close>

definition text_field :: "nat \<Rightarrow> string \<Rightarrow> char list" where
  "text_field n s = s @ replicate (n - length s) CHR 0x20"

fun text_fields :: "(nat \<times> string) list \<Rightarrow> char list" where
  "text_fields [] = []"
| "text_fields ((n, s) # fs) = text_field n s @ text_fields fs"

fun field_at :: "(nat \<times> string) list \<Rightarrow> nat \<Rightarrow> nat \<Rightarrow> string option" where
  "field_at [] off len = None"
| "field_at ((n, s) # fs) off len =
     (if off = 0 then (if n = len then Some s else None)
      else if off < n then None
      else field_at fs (off - n) len)"

definition fits :: "(nat \<times> string) list \<Rightarrow> bool" where
  "fits fs = list_all (\<lambda>(n, s). length s \<le> n) fs"

definition clean :: "string \<Rightarrow> bool" where
  "clean s = (s = [] \<or> (\<not> isWhiteSpace (hd s) \<and> \<not> isWhiteSpace (last s)))"

text \<open>
  A recording of two data records of one second with two signals: \<open>Flow\<close> with two
  samples in a record, from -1 to 1 L/s over the digital range from -128 to 128, and
  \<open>Press\<close> with one sample in a record, from 0 to 32 cmH2O over the range from 0 to
  1024. The header takes 768 bytes. The samples are 64 and -64 (flow) and 512 (pressure)
  in the first record, 128 and 0 and then 256 in the second.
\<close>

definition example_header :: "(nat \<times> string) list" where
  "example_header =
     [(8, ''0''), (80, ''X''), (80, ''Startdate''), (8, ''02.03.21''), (8, ''04.05.06''),
      (8, ''768''), (44, []), (8, ''2''), (8, ''1''), (4, ''2'')]"

definition example_channels :: "(nat \<times> string) list" where
  "example_channels =
     [(16, ''Flow''), (16, ''Press''),
      (80, []), (80, []),
      (8, ''L/s''), (8, ''cmH2O''),
      (8, ''-1''), (8, ''0''),
      (8, ''1''), (8, ''32''),
      (8, ''-128''), (8, ''0''),
      (8, ''128''), (8, ''1024''),
      (80, []), (80, []),
      (8, ''2''), (8, ''1''),
      (32, []), (32, [])]"

definition example_data :: "char list" where
  "example_data =
     [CHR 0x40, CHR 0x00, CHR 0xC0, CHR 0xFF, CHR 0x00, CHR 0x02,
      CHR 0x80, CHR 0x00, CHR 0x00, CHR 0x00, CHR 0x00, CHR 0x01]"

definition example_edf :: "char list" where
  "example_edf = text_fields (example_header @ example_channels) @ example_data"

text \<open>
  What \<open>parse\<close> returns for it: the header, the two signals as the signal headers
  describe them, and the recording with the decoded waveforms.
\<close>

definition example_metadata :: header where
  "example_metadata =
     \<lparr>version = ''0'', patientId = ''X'', recordingId = ''Startdate'',
      startDate = ''02.03.21'', startTime = ''04.05.06'', headerBytes = Some 768,
      reserved = [], numDataRecords = Some 2, recordDurationSec = Fin 1,
      numSignals = Some 2,
      recordingDate = \<lparr>year = 2021, monthIndex = 2, day = 2, hours = 4, minutes = 5, seconds = 6\<rparr>,
      totalDurationMinutes = Fin (1 / 30)\<rparr>"

definition flow_channel :: signal where
  "flow_channel =
     \<lparr>label = ''Flow'', transducer = [], physicalDimension = ''L/s'',
      physicalMin = Fin (- 1), physicalMax = Fin 1, digitalMin = Some (- 128),
      digitalMax = Some 128, prefiltering = [], numSamplesPerRecord = Some 2,
      samplingRate = Fin 2, scaleFactor = Fin (1 / 128), physicalValues = []\<rparr>"

definition press_channel :: signal where
  "press_channel =
     \<lparr>label = ''Press'', transducer = [], physicalDimension = ''cmH2O'',
      physicalMin = Fin 0, physicalMax = Fin 32, digitalMin = Some 0,
      digitalMax = Some 1024, prefiltering = [], numSamplesPerRecord = Some 1,
      samplingRate = Fin 1, scaleFactor = Fin (1 / 32), physicalValues = []\<rparr>"

definition example_recording :: recording where
  "example_recording =
     \<lparr>metadata = example_metadata,
      signals = [flow_channel\<lparr>physicalValues := [Fin (1 / 2), Fin (- 1 / 2), Fin 1, Fin 0]\<rparr>,
                 press_channel\<lparr>physicalValues := [Fin 16, Fin 8]\<rparr>],
      flowSignal = Some (flow_channel\<lparr>physicalValues := [Fin (1 / 2), Fin (- 1 / 2), Fin 1, Fin 0]\<rparr>)\<rparr>"

subsection \<open>Recordings that are not rejected\<close>

text \<open>
  A recording with one signal whose digital minimum and maximum are both 5, and one data
  record with the two samples 7 and 5.
\<close>

definition zero_range_header :: "(nat \<times> string) list" where
  "zero_range_header =
     [(8, ''0''), (80, ''X''), (80, ''Startdate''), (8, ''02.03.21''), (8, ''04.05.06''),
      (8, ''512''), (44, []), (8, ''1''), (8, ''1''), (4, ''1'')]"

definition zero_range_channel :: "(nat \<times> string) list" where
  "zero_range_channel =
     [(16, ''Flow''), (80, []), (8, ''L/s''), (8, ''-1''), (8, ''1''), (8, ''5''), (8, ''5''),
      (80, []), (8, ''2''), (32, [])]"

definition zero_range_data :: "char list" where
  "zero_range_data = [CHR 0x07, CHR 0x00, CHR 0x05, CHR 0x00]"

definition zero_range_edf :: "char list" where
  "zero_range_edf = text_fields (zero_range_header @ zero_range_channel) @ zero_range_data"

text \<open>
  What \<open>parse\<close> returns for it: the scale factor is \<open>2 / 0\<close>, which is \<open>Infinity\<close>,
  and the two values are \<open>2 * Infinity - 1\<close> and \<open>0 * Infinity - 1\<close>.
\<close>

definition zero_range_metadata :: header where
  "zero_range_metadata =
     \<lparr>version = ''0'', patientId = ''X'', recordingId = ''Startdate'',
      startDate = ''02.03.21'', startTime = ''04.05.06'', headerBytes = Some 512,
      reserved = [], numDataRecords = Some 1, recordDurationSec = Fin 1,
      numSignals = Some 1,
      recordingDate = \<lparr>year = 2021, monthIndex = 2, day = 2, hours = 4, minutes = 5, seconds = 6\<rparr>,
      totalDurationMinutes = Fin (1 / 60)\<rparr>"

definition zero_range_channel_header :: signal where
  "zero_range_channel_header =
     \<lparr>label = ''Flow'', transducer = [], physicalDimension = ''L/s'',
      physicalMin = Fin (- 1), physicalMax = Fin 1, digitalMin = Some 5,
      digitalMax = Some 5, prefiltering = [], numSamplesPerRecord = Some 2,
      samplingRate = Fin 2, scaleFactor = PosInf, physicalValues = []\<rparr>"

definition zero_range_recording :: recording where
  "zero_range_recording =
     \<lparr>metadata = zero_range_metadata,
      signals = [zero_range_channel_header\<lparr>physicalValues := [PosInf, NaN]\<rparr>],
      flowSignal = Some (zero_range_channel_header\<lparr>physicalValues := [PosInf, NaN]\<rparr>)\<rparr>"

text \<open>
  A buffer of 480 bytes. Its header leaves \<open>headerBytes\<close>, \<open>numDataRecords\<close> and
  \<open>recordDurationSec\<close> blank and declares one signal; the 224 bytes of that signal's
  fields which the parser reads follow, and the 32 reserved bytes that complete the
  signal's 256 bytes are missing.
\<close>

definition sparse_header :: "(nat \<times> string) list" where
  "sparse_header =
     [(8, ''0''), (80, ''X''), (80, ''Startdate''), (8, ''02.03.21''), (8, ''04.05.06''),
      (8, []), (44, []), (8, []), (8, []), (4, ''1'')]"

definition sparse_channel :: "(nat \<times> string) list" where
  "sparse_channel =
     [(16, ''Flow''), (80, []), (8, ''L/s''), (8, ''-1''), (8, ''1''), (8, ''-128''), (8, ''128''),
      (80, []), (8, ''2'')]"

definition sparse_edf :: "char list" where
  "sparse_edf = text_fields (sparse_header @ sparse_channel)"

definition sparse_metadata :: header where
  "sparse_metadata =
     \<lparr>version = ''0'', patientId = ''X'', recordingId = ''Startdate'',
      startDate = ''02.03.21'', startTime = ''04.05.06'', headerBytes = None,
      reserved = [], numDataRecords = None, recordDurationSec = NaN,
      numSignals = Some 1,
      recordingDate = \<lparr>year = 2021, monthIndex = 2, day = 2, hours = 4, minutes = 5, seconds = 6\<rparr>,
      totalDurationMinutes = NaN\<rparr>"

definition sparse_channel_header :: signal where
  "sparse_channel_header =
     \<lparr>label = ''Flow'', transducer = [], physicalDimension = ''L/s'',
      physicalMin = Fin (- 1), physicalMax = Fin 1, digitalMin = Some (- 128),
      digitalMax = Some 128, prefiltering = [], numSamplesPerRecord = Some 2,
      samplingRate = NaN, scaleFactor = Fin (1 / 128), physicalValues = []\<rparr>"

definition sparse_recording :: recording where
  "sparse_recording =
     \<lparr>metadata = sparse_metadata, signals = [sparse_channel_header],
      flowSignal = Some sparse_channel_header\<rparr>"

text \<open>
  A header of 256 spaces.
\<close>

definition blank_header :: "char list" where
  "blank_header = replicate 256 CHR 0x20"

section \<open>Verification: breath segmentation\<close>

lemma find_snoc:
  "List.find P (xs @ [x]) = (case List.find P xs of None \<Rightarrow> (if P x then Some x else None) | Some y \<Rightarrow> Some y)"
  by (induction xs) auto

lemma seg_loop_Suc: "1 \<le> n \<Longrightarrow> seg_loop f sr (Suc n) = seg_step f sr (seg_loop f sr n) n"
  by (simp add: seg_loop_def)

lemma rising_not_falling: "rising f i \<Longrightarrow> \<not> falling f i"
  by (cases "f ! i"; cases "f ! (i - 1)") (auto simp: rising_def falling_def jgt_def)

lemma starts_lt: "x \<in> set (filter (rising f) [1..<n]) \<Longrightarrow> x < n"
  by auto

lemma seg_inv_step:
  assumes inv: "seg_inv f sr n st" and n: "1 \<le> n"
  shows "seg_inv f sr (Suc n) (seg_step f sr st n)"
proof -
  define starts where "starts = filter (rising f) [1..<n]"
  have len: "length (breaths st) = length starts"
    and nth: "\<And>k. k < length starts \<Longrightarrow> breaths st ! k = breath_at f sr (starts ! k) (next_start starts n k)"
    and cur: "currentBreath st = (if starts = [] then None else Some (length starts - 1))"
    and ins: "inInspiration st \<longleftrightarrow> starts \<noteq> [] \<and> List.find (falling f) [Suc (last starts)..<n] = None"
    using inv unfolding seg_inv_def starts_def Let_def by auto
  have last_lt: "starts \<noteq> [] \<Longrightarrow> last starts < n"
    using starts_lt[of "last starts" f n] last_in_set[of starts] by (simp add: starts_def)
  have upt: "[1..<Suc n] = [1..<n] @ [n]" using n by simp
  show ?thesis
  proof (cases "rising f n")
    case True
    have st': "filter (rising f) [1..<Suc n] = starts @ [n]"
      using True n by (simp add: starts_def)
    have step: "seg_step f sr st n = st\<lparr>inspirationStart := n, inInspiration := True,
           currentBreath := Some (length (breaths st)),
           breaths := breaths st @ [breath_at f sr n (Suc n)]\<rparr>"
      using True by (simp add: seg_step_def breath_at_def)
    show ?thesis
      unfolding seg_inv_def Let_def st' step
      using len nth by (auto simp: nth_append next_start_def less_Suc_eq breath_at_def)
  next
    case False
    have st': "filter (rising f) [1..<Suc n] = starts"
      using False n by (simp add: starts_def)
    show ?thesis
    proof (cases "falling f n")
      case nf: False
      have step: "seg_step f sr st n = st" using False nf by (simp add: seg_step_def)
      have "\<And>k. k < length starts \<Longrightarrow> breath_at f sr (starts ! k) (next_start starts (Suc n) k) = breath_at f sr (starts ! k) (next_start starts n k)"
      proof -
        fix k assume k: "k < length starts"
        show "breath_at f sr (starts ! k) (next_start starts (Suc n) k) = breath_at f sr (starts ! k) (next_start starts n k)"
        proof (cases "Suc k < length starts")
          case True then show ?thesis by (simp add: next_start_def)
        next
          case F: False
          then have kl: "k = length starts - 1" and ne: "starts \<noteq> []" using k by auto
          then have "starts ! k = last starts" by (simp add: last_conv_nth)
          moreover have "last starts < n" using last_lt[OF ne] .
          ultimately show ?thesis using F nf by (simp add: next_start_def breath_at_def find_snoc split: option.splits)
        qed
      qed
      moreover have "starts \<noteq> [] \<Longrightarrow> List.find (falling f) [Suc (last starts)..<Suc n] = List.find (falling f) [Suc (last starts)..<n]"
        using last_lt nf by (simp add: find_snoc split: option.splits)
      ultimately show ?thesis
        unfolding seg_inv_def Let_def st' step
        using len nth cur ins by auto
    next
      case fl: True
      show ?thesis
      proof (cases "starts = []")
        case True
        then have step: "seg_step f sr st n = st\<lparr>inInspiration := False\<rparr>"
          using False fl cur by (simp add: seg_step_def split: bool.splits)
        show ?thesis
          unfolding seg_inv_def Let_def st' step using True len cur by simp
      next
        case ne: False
        define c where "c = length starts - 1"
        have c: "c < length starts" "\<not> Suc c < length starts" "starts ! c = last starts"
          using ne by (auto simp: c_def last_conv_nth)
        have l: "last starts < n" using last_lt ne by simp
        have fnd: "List.find (falling f) [Suc (last starts)..<Suc n] =
            (case List.find (falling f) [Suc (last starts)..<n] of None \<Rightarrow> Some n | Some y \<Rightarrow> Some y)"
          using l fl by (simp add: find_snoc)
        have other: "\<And>k. k < length starts \<Longrightarrow> k \<noteq> c \<Longrightarrow>
            next_start starts (Suc n) k = next_start starts n k"
          by (auto simp: next_start_def c_def)
        have lastb: "breath_at f sr (last starts) (Suc n) =
            (if inInspiration st then close_breath sr n (breaths st ! c) else breaths st ! c)"
          using nth[OF c(1)] c ins ne fnd
          by (auto simp: next_start_def breath_at_def close_breath_def split: option.splits)
        have step: "seg_step f sr st n =
            st\<lparr>breaths := (breaths st)[c := breath_at f sr (last starts) (Suc n)], inInspiration := False\<rparr>"
          using False fl cur ne lastb len c
          by (cases "inInspiration st") (simp_all add: seg_step_def c_def list_update_same_conv)
        have nxc: "next_start starts (Suc n) c = Suc n"
          using c by (simp add: next_start_def)
        show ?thesis
          unfolding seg_inv_def Let_def st' step
          using len nth cur ne c other nxc fnd
          by (auto simp: nth_list_update c_def[symmetric] split: option.splits)
      qed
    qed
  qed
qed


lemma seg_inv_loop: "seg_inv f sr n (seg_loop f sr n)"
proof (induction n)
  case 0
  show ?case by (simp add: seg_inv_def seg_loop_def seg_init_def)
next
  case (Suc n)
  show ?case
  proof (cases "1 \<le> n")
    case True
    then show ?thesis using seg_inv_step[OF Suc True] by (simp add: seg_loop_Suc)
  next
    case False
    then show ?thesis by (simp add: seg_inv_def seg_loop_def seg_init_def)
  qed
qed

lemma segment_example_flow: "segment example_flow (Fin 1) =
  [\<lparr>start = 1, end_index = 2, inspStart = 1, inspEnd = 2, startTime = Fin 1, endTime = Some (Fin 2)\<rparr>,
   \<lparr>start = 3, end_index = 4, inspStart = 3, inspEnd = 4, startTime = Fin 3, endTime = Some (Fin 4)\<rparr>]"
  by (simp add: example_flow_def segment_def seg_loop_def seg_init_def upt_rec seg_step_def rising_def falling_def jgt_def jnat_def close_breath_def)

lemma segment_length: "length (segment f sr) = length (filter (rising f) [1..<length f])"
  using seg_inv_loop[of f sr "length f"] unfolding seg_inv_def Let_def segment_def by auto

lemma segment_breath:
  assumes "k < length (segment f sr)"
  shows "segment f sr ! k =
    breath_at f sr (filter (rising f) [1..<length f] ! k)
      (next_start (filter (rising f) [1..<length f]) (length f) k)"
  using seg_inv_loop[of f sr "length f"] assms
  unfolding seg_inv_def Let_def segment_def by auto

lemma start_breath_at: "start (breath_at f sr i nxt) = i"
  by (simp add: breath_at_def split: option.splits)

lemma segment_starts: "map start (segment f sr) = filter (rising f) [1..<length f]"
  by (simp add: list_eq_iff_nth_eq segment_length segment_breath start_breath_at)

lemma segment_nth:
  assumes "k < length (segment f sr)"
  shows "segment f sr ! k =
    breath_at f sr (start (segment f sr ! k)) (next_start (filter (rising f) [1..<length f]) (length f) k)"
  using segment_breath[OF assms] by (simp add: start_breath_at)

text \<open>
  Claim C3. For every flow waveform and sampling rate, the breaths of the segmentation
  start exactly at the indices \<open>i \<ge> 1\<close> with \<open>flow[i] > 0\<close> and \<open>flow[i - 1] \<le> 0\<close>, in
  order; the breath that starts at \<open>i\<close> has \<open>startTime = i / samplingRate\<close> and is
  closed at the next index \<open>j\<close> with \<open>flow[j] \<le> 0\<close> and \<open>flow[j - 1] > 0\<close> that comes
  while it is the open breath (\<open>breath_at\<close>); and the flow \<open>[-1, 1, -1, 1, -1]\<close> at 1 Hz
  yields exactly two breaths, with start indices 1 and 3.
\<close>

theorem breath_segmentation:
  "map start (segment f sr) = filter (rising f) [1..<length f] \<and>
   (\<forall>k < length (segment f sr).
      segment f sr ! k =
        breath_at f sr (start (segment f sr ! k)) (next_start (map start (segment f sr)) (length f) k)) \<and>
   map start (segment example_flow (Fin 1)) = [1, 3]"
proof -
  have a: "map start (segment f sr) = filter (rising f) [1..<length f]"
    by (rule segment_starts)
  have b: "\<forall>k < length (segment f sr).
      segment f sr ! k =
        breath_at f sr (start (segment f sr ! k)) (next_start (map start (segment f sr)) (length f) k)"
    using segment_nth[of _ f sr] by (simp add: segment_starts)
  have c: "map start (segment example_flow (Fin 1)) = [1, 3]"
    by (simp add: segment_example_flow)
  show ?thesis using a b c by blast
qed

theorem breath_segmentation_witness:
  "0 < length (segment example_flow (Fin 1)) \<and>
   segment example_flow (Fin 1) ! 0 = breath_at example_flow (Fin 1) 1 3"
proof -
  have len: "0 < length (segment example_flow (Fin 1))" by (simp add: segment_example_flow)
  have "segment example_flow (Fin 1) ! 0 =
        breath_at example_flow (Fin 1) (start (segment example_flow (Fin 1) ! 0))
          (next_start (map start (segment example_flow (Fin 1))) (length example_flow) 0)"
    using breath_segmentation[of example_flow "Fin 1"] len by blast
  then have "segment example_flow (Fin 1) ! 0 = breath_at example_flow (Fin 1) 1 3"
    by (simp add: segment_example_flow next_start_def)
  then show ?thesis using len by simp
qed

section \<open>Verification: open and closed breaths\<close>

lemma segment_open_flow:
  "segment open_flow (Fin 1) =
     [\<lparr>start = 1, end_index = 1, inspStart = 1, inspEnd = 1, startTime = Fin 1, endTime = None\<rparr>]"
  by (simp add: open_flow_def segment_def seg_loop_def seg_init_def upt_rec seg_step_def
      rising_def falling_def jgt_def jnat_def close_breath_def)

lemma breath_at_closed:
  assumes "endTime (breath_at f sr i nxt) \<noteq> None"
  shows "i < inspEnd (breath_at f sr i nxt) \<and>
         inspEnd (breath_at f sr i nxt) = end_index (breath_at f sr i nxt) \<and>
         end_index (breath_at f sr i nxt) < nxt \<and>
         endTime (breath_at f sr i nxt) = Some (jdiv (jnat (end_index (breath_at f sr i nxt))) sr)"
proof (cases "List.find (falling f) [Suc i..<nxt]")
  case None
  then show ?thesis using assms by (simp add: breath_at_def)
next
  case (Some j)
  then have "j \<in> set [Suc i..<nxt]" by (auto simp: find_Some_iff)
  then show ?thesis using Some by (simp add: breath_at_def)
qed

lemma breath_at_open:
  assumes "endTime (breath_at f sr i nxt) = None"
  shows "inspEnd (breath_at f sr i nxt) = i \<and> end_index (breath_at f sr i nxt) = i"
  using assms by (simp add: breath_at_def split: option.splits)

lemma sorted_le_last: "x \<in> set xs \<Longrightarrow> sorted xs \<Longrightarrow> x \<le> (last xs :: nat)"
  by (induction xs) auto

lemma segment_elem:
  assumes "b \<in> set (segment f sr)"
  obtains i nxt where "b = breath_at f sr i nxt" "nxt \<le> length f"
proof -
  obtain k where k: "k < length (segment f sr)" "b = segment f sr ! k"
    using assms by (auto simp: in_set_conv_nth)
  let ?starts = "filter (rising f) [1..<length f]"
  have "next_start ?starts (length f) k \<le> length f"
  proof (cases "Suc k < length ?starts")
    case True
    then have "?starts ! Suc k \<in> set ?starts" by (rule nth_mem)
    then show ?thesis using True by (auto simp: next_start_def)
  next
    case False
    then show ?thesis by (simp add: next_start_def)
  qed
  then show ?thesis using that segment_breath[OF k(1)] k(2) by blast
qed

text \<open>
  Claim C9, as stated, fails: a breath object always carries an \<open>end\<close> index. A breath
  that is never closed keeps the index it was created with, its own start, so for the
  waveform \<open>[-1, 1]\<close> the final breath has \<open>end = 1\<close> and does not satisfy
  \<open>start < inspEnd\<close>. What a closed breath gains, and an open one lacks, is \<open>endTime\<close>.
\<close>

theorem open_breath_counterexample:
  "segment open_flow (Fin 1) =
     [\<lparr>start = 1, end_index = 1, inspStart = 1, inspEnd = 1, startTime = Fin 1, endTime = None\<rparr>] \<and>
   end_index (last (segment open_flow (Fin 1))) = 1 \<and>
   \<not> start (last (segment open_flow (Fin 1))) < inspEnd (last (segment open_flow (Fin 1)))"
  by (simp add: segment_open_flow)

text \<open>
  Claim C9, amended. When the waveform has a rising crossing with no falling crossing
  after it, the final breath has no \<open>endTime\<close> and its \<open>end\<close> and \<open>inspEnd\<close> are still
  its start index. Every breath without \<open>endTime\<close> is in that state, and every breath
  with \<open>endTime\<close> satisfies \<open>start < inspEnd = end < length\<close>, with
  \<open>endTime = end / samplingRate\<close>.
\<close>

theorem open_breath_final:
  "(1 \<le> i \<and> i < length f \<and> rising f i \<and> (\<forall>j. i < j \<and> j < length f \<longrightarrow> \<not> falling f j) \<longrightarrow>
      segment f sr \<noteq> [] \<and> endTime (last (segment f sr)) = None \<and>
      end_index (last (segment f sr)) = start (last (segment f sr)) \<and>
      inspEnd (last (segment f sr)) = start (last (segment f sr))) \<and>
   (\<forall>b \<in> set (segment f sr).
      (endTime b = None \<longrightarrow> inspEnd b = start b \<and> end_index b = start b) \<and>
      (endTime b \<noteq> None \<longrightarrow>
         start b < inspEnd b \<and> inspEnd b = end_index b \<and> end_index b < length f \<and>
         endTime b = Some (jdiv (jnat (end_index b)) sr)))"
proof -
  let ?starts = "filter (rising f) [1..<length f]"
  let ?bs = "segment f sr"
  have all: "\<forall>b \<in> set ?bs.
      (endTime b = None \<longrightarrow> inspEnd b = start b \<and> end_index b = start b) \<and>
      (endTime b \<noteq> None \<longrightarrow>
         start b < inspEnd b \<and> inspEnd b = end_index b \<and> end_index b < length f \<and>
         endTime b = Some (jdiv (jnat (end_index b)) sr))"
  proof
    fix b assume "b \<in> set ?bs"
    then obtain s nxt where b: "b = breath_at f sr s nxt" and nxt: "nxt \<le> length f"
      by (rule segment_elem)
    show "(endTime b = None \<longrightarrow> inspEnd b = start b \<and> end_index b = start b) \<and>
      (endTime b \<noteq> None \<longrightarrow>
         start b < inspEnd b \<and> inspEnd b = end_index b \<and> end_index b < length f \<and>
         endTime b = Some (jdiv (jnat (end_index b)) sr))"
      using breath_at_closed[of f sr s nxt] breath_at_open[of f sr s nxt] nxt
      unfolding b start_breath_at by auto
  qed
  have fin: "segment f sr \<noteq> [] \<and> endTime (last (segment f sr)) = None \<and>
      end_index (last (segment f sr)) = start (last (segment f sr)) \<and>
      inspEnd (last (segment f sr)) = start (last (segment f sr))"
    if i: "1 \<le> i" "i < length f" "rising f i" and nf: "\<forall>j. i < j \<and> j < length f \<longrightarrow> \<not> falling f j"
  proof -
    have mem: "i \<in> set ?starts" using i by simp
    have ne: "?starts \<noteq> []"
    proof
      assume "?starts = []"
      then show False using mem by (simp only: list.set empty_iff)
    qed
    have sorted: "sorted ?starts" by (simp add: sorted_wrt_filter)
    have "i \<le> last ?starts"
      using mem sorted by (rule sorted_le_last)
    then have none: "List.find (falling f) [Suc (last ?starts)..<length f] = None"
      using nf by (auto simp: find_None_iff)
    define k where "k = length ?starts - 1"
    have k: "k < length ?bs" "\<not> Suc k < length ?starts" "?starts ! k = last ?starts"
      using ne by (auto simp: k_def segment_length last_conv_nth)
    have bsne: "?bs \<noteq> []" using k(1) by auto
    have "last ?bs = ?bs ! k"
      using bsne by (simp add: last_conv_nth k_def segment_length)
    also have "\<dots> = breath_at f sr (last ?starts) (length f)"
      using segment_breath[OF k(1)] k by (simp add: next_start_def)
    finally show ?thesis using bsne none by (simp add: breath_at_def)
  qed
  show ?thesis using all fin by blast
qed

theorem open_breath_final_witness:
  "(1::nat) \<le> 1 \<and> (1::nat) < length open_flow \<and> rising open_flow 1 \<and>
   endTime (last (segment open_flow (Fin 1))) = None \<and>
   end_index (last (segment open_flow (Fin 1))) = start (last (segment open_flow (Fin 1)))"
proof -
  have h: "(1::nat) \<le> 1 \<and> (1::nat) < length open_flow \<and> rising open_flow 1 \<and>
     (\<forall>j. 1 < j \<and> j < length open_flow \<longrightarrow> \<not> falling open_flow j)"
    by (auto simp: open_flow_def rising_def jgt_def)
  then show ?thesis using open_breath_final[of 1 open_flow "Fin 1"] by blast
qed

section \<open>Verification: a zero in the configuration\<close>

lemma flScore_cong:
  assumes "or_default (flTopPercentage s) (Fin 0.5) = or_default (flTopPercentage s') (Fin 0.5)"
    and "or_default (flFlatnessTarget s) (Fin 0.05) = or_default (flFlatnessTarget s') (Fin 0.05)"
  shows "flScore f sr s = flScore f sr s'"
  using assms by (simp add: flScore_def flScores_def)

lemma arousals_cong:
  assumes "or_default (arousalBaselineWindowSec s) (Fin 120) = or_default (arousalBaselineWindowSec s') (Fin 120)"
    and "or_default (arousalRateIncreaseMin s) (Fin 0.20) = or_default (arousalRateIncreaseMin s') (Fin 0.20)"
    and "or_default (arousalVolIncreaseMin s) (Fin 0.30) = or_default (arousalVolIncreaseMin s') (Fin 0.30)"
  shows "arousals f sr s = arousals f sr s'"
proof -
  have "qualifies s = qualifies s'"
    using assms by (intro ext) (simp add: qualifies_def)
  then have "arousal_step s = arousal_step s'"
    by (intro ext) (simp add: arousal_step_def)
  then have "arousalList s = arousalList s'"
    by (intro ext) (simp add: arousalList_def)
  then show ?thesis by (simp add: arousals_def Let_def)
qed

lemma wobble_process_cong:
  assumes "or_default (flTopPercentage s) (Fin 0.5) = or_default (flTopPercentage s') (Fin 0.5)"
    and "or_default (flFlatnessTarget s) (Fin 0.05) = or_default (flFlatnessTarget s') (Fin 0.05)"
    and "or_default (arousalBaselineWindowSec s) (Fin 120) = or_default (arousalBaselineWindowSec s') (Fin 120)"
    and "or_default (arousalRateIncreaseMin s) (Fin 0.20) = or_default (arousalRateIncreaseMin s') (Fin 0.20)"
    and "or_default (arousalVolIncreaseMin s) (Fin 0.30) = or_default (arousalVolIncreaseMin s') (Fin 0.30)"
  shows "wobble_process f sr s = wobble_process f sr s'"
  using flScore_cong[OF assms(1,2)] arousals_cong[OF assms(3,4,5)]
  by (simp add: wobble_process_def split: option.splits)

text \<open>
  Claim C10. For each of the five parameters the analyzer reads, a configuration in
  which the parameter is present and 0 gives the same run as the configuration without
  the key, and the same run as the configuration that holds the documented default: the
  analyzer computes with the default, and a supplied zero cannot be told from a missing
  key.
\<close>

theorem zero_setting_reads_as_default:
  "wobble_process f sr (s\<lparr>flTopPercentage := Some (Fin 0)\<rparr>)
     = wobble_process f sr (s\<lparr>flTopPercentage := None\<rparr>) \<and>
   wobble_process f sr (s\<lparr>flTopPercentage := Some (Fin 0)\<rparr>)
     = wobble_process f sr (s\<lparr>flTopPercentage := Some (Fin 0.5)\<rparr>) \<and>
   wobble_process f sr (s\<lparr>flFlatnessTarget := Some (Fin 0)\<rparr>)
     = wobble_process f sr (s\<lparr>flFlatnessTarget := None\<rparr>) \<and>
   wobble_process f sr (s\<lparr>flFlatnessTarget := Some (Fin 0)\<rparr>)
     = wobble_process f sr (s\<lparr>flFlatnessTarget := Some (Fin 0.05)\<rparr>) \<and>
   wobble_process f sr (s\<lparr>arousalBaselineWindowSec := Some (Fin 0)\<rparr>)
     = wobble_process f sr (s\<lparr>arousalBaselineWindowSec := None\<rparr>) \<and>
   wobble_process f sr (s\<lparr>arousalBaselineWindowSec := Some (Fin 0)\<rparr>)
     = wobble_process f sr (s\<lparr>arousalBaselineWindowSec := Some (Fin 120)\<rparr>) \<and>
   wobble_process f sr (s\<lparr>arousalRateIncreaseMin := Some (Fin 0)\<rparr>)
     = wobble_process f sr (s\<lparr>arousalRateIncreaseMin := None\<rparr>) \<and>
   wobble_process f sr (s\<lparr>arousalRateIncreaseMin := Some (Fin 0)\<rparr>)
     = wobble_process f sr (s\<lparr>arousalRateIncreaseMin := Some (Fin 0.20)\<rparr>) \<and>
   wobble_process f sr (s\<lparr>arousalVolIncreaseMin := Some (Fin 0)\<rparr>)
     = wobble_process f sr (s\<lparr>arousalVolIncreaseMin := None\<rparr>) \<and>
   wobble_process f sr (s\<lparr>arousalVolIncreaseMin := Some (Fin 0)\<rparr>)
     = wobble_process f sr (s\<lparr>arousalVolIncreaseMin := Some (Fin 0.30)\<rparr>)"
  by (intro conjI wobble_process_cong) simp_all

section \<open>Verification: sample entropy\<close>

lemma tolerance_level_series: "tolerance level_series = Fin 0"
  by (simp add: tolerance_def mv_variance_def mean_of_def reduce_add_def level_series_def jnat_def jsub_def)

lemma countMatches_level_2: "countMatches level_series (Fin 0) 2 = 3"
  by code_simp

lemma countMatches_level_3: "countMatches level_series (Fin 0) 3 = 1"
  by code_simp

lemma spec_countMatches_level_2: "spec_countMatches level_series (Fin 0) 2 = 6"
  by code_simp

lemma spec_countMatches_level_3: "spec_countMatches level_series (Fin 0) 3 = 3"
  by code_simp

lemma sampleEntropy_level: "sampleEntropy level_series = Fin (- ln (1 / 3))"
  by (simp add: sampleEntropy_def tolerance_level_series countMatches_level_2
      countMatches_level_3 jnat_def)

lemma length_filter_upt: "length (filter P [a..<b]) = card {j. a \<le> j \<and> j < b \<and> P j}"
proof -
  have "distinct (filter P [a..<b])" by simp
  then have "card (set (filter P [a..<b])) = length (filter P [a..<b])"
    by (rule distinct_card)
  moreover have "set (filter P [a..<b]) = {j. a \<le> j \<and> j < b \<and> P j}" by auto
  ultimately show ?thesis by simp
qed

lemma countMatches_card:
  "countMatches mv r m =
     card {(i, j). i < j \<and> j + m < length mv \<and> template_match mv r m i j}"
proof -
  define n where "n = length mv - m"
  define B where "B = (\<lambda>i. {j. Suc i \<le> j \<and> j < n \<and> template_match mv r m i j})"
  have fin: "finite (B i)" for i by (simp add: B_def)
  have "countMatches mv r m = (\<Sum>i\<leftarrow>[0..<n]. card (B i))"
    by (simp add: countMatches_def length_filter_upt Let_def n_def B_def)
  also have "\<dots> = (\<Sum>i\<in>{0..<n}. card (B i))"
    by (simp add: interv_sum_list_conv_sum_set_nat)
  also have "\<dots> = card (SIGMA i:{0..<n}. B i)"
    using fin by (simp add: card_SigmaI)
  also have "(SIGMA i:{0..<n}. B i) =
      {(i, j). i < j \<and> j + m < length mv \<and> template_match mv r m i j}"
    unfolding B_def n_def by (auto simp: less_diff_conv)
  finally show ?thesis .
qed

lemma template_match_iff:
  "template_match mv r m i j \<longleftrightarrow> (\<forall>k<m. \<not> jgt (jabs (jsub (mv ! (i + k)) (mv ! (j + k)))) r)"
  by (auto simp: template_match_def list_all_iff)

lemma not_jgt_finite: "\<not> jgt (jabs (jsub (Fin a) (Fin b))) (Fin c) \<longleftrightarrow> jle (jabs (jsub (Fin a) (Fin b))) (Fin c)"
  by (auto simp: jgt_def jsub_def)

lemma sampleEntropy_formula:
  "sampleEntropy mv =
     (if countMatches mv (tolerance mv) 2 = 0 \<or> countMatches mv (tolerance mv) 3 = 0 then Fin 0
      else Fin (- ln (real (countMatches mv (tolerance mv) 3) / real (countMatches mv (tolerance mv) 2))))"
proof -
  have "\<not> real A / real B < 0" for A B :: nat
    by (simp add: not_less)
  then show ?thesis by (simp add: sampleEntropy_def Let_def jnat_def)
qed

text \<open>
  Claim C8, as stated, fails: \<open>countMatches\<close> lets both indices run below \<open>N - m\<close>, so
  the last template that lies within the series, the one that starts at \<open>N - m\<close>, is
  in no pair. For the series of five ones (tolerance 0) the loop counts 3 and 1 pairs
  where the claim counts 6 and 3, and the entropy is \<open>-ln(1/3)\<close>, not \<open>-ln(3/6)\<close>.
\<close>

theorem count_matches_counterexample:
  "tolerance level_series = Fin 0 \<and>
   countMatches level_series (tolerance level_series) 2 = 3 \<and>
   spec_countMatches level_series (tolerance level_series) 2 = 6 \<and>
   countMatches level_series (tolerance level_series) 3 = 1 \<and>
   spec_countMatches level_series (tolerance level_series) 3 = 3 \<and>
   sampleEntropy level_series = Fin (- ln (1 / 3)) \<and>
   sampleEntropy level_series \<noteq> Fin (- ln (3 / 6))"
proof -
  have "ln (1 / 3 :: real) \<noteq> ln (3 / 6)"
    by (simp del: ln_divide_pos ln_div)
  then show ?thesis
    by (simp only: tolerance_level_series countMatches_level_2 countMatches_level_3
        spec_countMatches_level_2 spec_countMatches_level_3 sampleEntropy_level
        jsnum.inject neg_equal_iff_equal simp_thms)
qed

text \<open>
  Claim C8, amended. \<open>countMatches(m)\<close> is the number of index pairs \<open>i < j < N - m\<close>
  for which no offset \<open>k < m\<close> has \<open>|series[i+k] - series[j+k]| > r\<close>; when the series
  and \<open>r\<close> are finite numbers that is \<open>|series[i+k] - series[j+k]| \<le> r\<close> at every
  offset. With \<open>B\<close> and \<open>A\<close> the counts for \<open>m = 2\<close> and \<open>m = 3\<close> at the tolerance of the
  series, the sample entropy is \<open>-ln(A/B)\<close> when both are nonzero and 0 otherwise.
\<close>

theorem sample_entropy_counts:
  "countMatches mv r m =
     card {(i, j). i < j \<and> j + m < length mv \<and>
             (\<forall>k<m. \<not> jgt (jabs (jsub (mv ! (i + k)) (mv ! (j + k)))) r)} \<and>
   ((\<forall>x\<in>set mv. \<exists>a. x = Fin a) \<and> (\<exists>c. r = Fin c) \<longrightarrow>
      countMatches mv r m =
        card {(i, j). i < j \<and> j + m < length mv \<and>
                (\<forall>k<m. jle (jabs (jsub (mv ! (i + k)) (mv ! (j + k)))) r)}) \<and>
   sampleEntropy mv =
     (if countMatches mv (tolerance mv) 2 = 0 \<or> countMatches mv (tolerance mv) 3 = 0 then Fin 0
      else Fin (- ln (real (countMatches mv (tolerance mv) 3) / real (countMatches mv (tolerance mv) 2))))"
proof (intro conjI impI)
  show a: "countMatches mv r m =
     card {(i, j). i < j \<and> j + m < length mv \<and>
             (\<forall>k<m. \<not> jgt (jabs (jsub (mv ! (i + k)) (mv ! (j + k)))) r)}"
    by (simp add: countMatches_card template_match_iff)
  show "sampleEntropy mv =
     (if countMatches mv (tolerance mv) 2 = 0 \<or> countMatches mv (tolerance mv) 3 = 0 then Fin 0
      else Fin (- ln (real (countMatches mv (tolerance mv) 3) / real (countMatches mv (tolerance mv) 2))))"
    by (rule sampleEntropy_formula)
  assume fin: "(\<forall>x\<in>set mv. \<exists>a. x = Fin a) \<and> (\<exists>c. r = Fin c)"
  then obtain c where c: "r = Fin c" by blast
  have eq: "(\<forall>k<m. \<not> jgt (jabs (jsub (mv ! (i + k)) (mv ! (j + k)))) r) \<longleftrightarrow>
            (\<forall>k<m. jle (jabs (jsub (mv ! (i + k)) (mv ! (j + k)))) r)"
    if "i < j" "j + m < length mv" for i j
  proof -
    have "\<not> jgt (jabs (jsub (mv ! (i + k)) (mv ! (j + k)))) r \<longleftrightarrow>
          jle (jabs (jsub (mv ! (i + k)) (mv ! (j + k)))) r" if "k < m" for k
    proof -
      have "mv ! (i + k) \<in> set mv" "mv ! (j + k) \<in> set mv"
        using \<open>i < j\<close> \<open>j + m < length mv\<close> \<open>k < m\<close> by simp_all
      then obtain x y where "mv ! (i + k) = Fin x" "mv ! (j + k) = Fin y"
        using fin by blast
      then show ?thesis by (simp add: c not_jgt_finite)
    qed
    then show ?thesis by simp
  qed
  have "{(i, j). i < j \<and> j + m < length mv \<and>
             (\<forall>k<m. \<not> jgt (jabs (jsub (mv ! (i + k)) (mv ! (j + k)))) r)} =
        {(i, j). i < j \<and> j + m < length mv \<and>
                (\<forall>k<m. jle (jabs (jsub (mv ! (i + k)) (mv ! (j + k)))) r)}"
    using eq by blast
  then show "countMatches mv r m =
        card {(i, j). i < j \<and> j + m < length mv \<and>
                (\<forall>k<m. jle (jabs (jsub (mv ! (i + k)) (mv ! (j + k)))) r)}"
    using a by simp
qed

theorem sample_entropy_counts_witness:
  "card {(i, j). i < j \<and> j + 2 < length level_series \<and>
      (\<forall>k<2. jle (jabs (jsub (level_series ! (i + k)) (level_series ! (j + k)))) (Fin 0))} = 3 \<and>
   sampleEntropy level_series = Fin (- ln (1 / 3))"
proof -
  have fin: "(\<forall>x\<in>set level_series. \<exists>a. x = Fin a) \<and> (\<exists>c. Fin 0 = Fin c)"
    by (simp add: level_series_def)
  note t = sample_entropy_counts[of level_series "Fin 0" 2]
  have "countMatches level_series (Fin 0) 2 =
     card {(i, j). i < j \<and> j + 2 < length level_series \<and>
      (\<forall>k<2. jle (jabs (jsub (level_series ! (i + k)) (level_series ! (j + k)))) (Fin 0))}"
    using t[THEN conjunct2, THEN conjunct1] fin by blast
  moreover have "sampleEntropy level_series = Fin (- ln (1 / 3))"
    using t[THEN conjunct2, THEN conjunct2]
    by (simp add: tolerance_level_series countMatches_level_2 countMatches_level_3)
  ultimately show ?thesis by (simp add: countMatches_level_2)
qed

section \<open>Verification: the periodicity index\<close>

lemma pow2ceil_1: "pow2ceil (Suc 0) = 1"
  by (simp add: pow2ceil_def)

lemma pow2ceil_2: "pow2ceil (Suc (Suc 0)) = 2"
proof -
  have "real (Suc (Suc 0)) = 2" by simp
  moreover have "log 2 (2::real) = 1" by simp
  ultimately have "\<lceil>log 2 (real (Suc (Suc 0)))\<rceil> = 1" by (simp only: ceiling_one)
  then show ?thesis by (simp only: pow2ceil_def nat_one_as_int[symmetric] nat_int power_one_right)
qed

lemma power_single: "power_mv [v] = []"
  by (simp add: power_mv_def detrended_def pow2ceil_1 Let_def)

lemma periodicity_single: "totalPower [v] = Fin 0 \<and> periodicityIndex [v] = NaN"
  by (simp add: periodicityIndex_def totalPower_def pbPower_def power_single sum_from0_def Let_def)

lemma detrended_pair: "detrended [Fin c, Fin c] = [Fin 0, Fin 0]"
  by (simp add: detrended_def mean_of_def reduce_add_def jnat_def jsub_def)

lemma fft_single: "fft [c] = [c]"
  by (subst fft.simps) simp

lemma fft_zero_pair: "fft [(Fin 0, Fin 0), (Fin 0, Fin 0)] = [(Fin 0, Fin 0), (Fin 0, Fin 0)]"
  by (subst fft.simps) (simp add: fft_single butterfly_def twiddle_def cadd_def csub_def jnat_def jsub_def)

lemma power_pair: "power_mv [Fin c, Fin c] = [Fin 0]"
  by (simp add: power_mv_def detrended_pair pow2ceil_2 Let_def fft_zero_pair magnitude_def)

lemma periodicity_pair: "totalPower [Fin c, Fin c] = Fin 0 \<and> periodicityIndex [Fin c, Fin c] = NaN"
  by (simp add: periodicityIndex_def totalPower_def pbPower_def power_pair sum_from0_def Let_def
      detrended_pair pow2ceil_2 freq_def jnat_def jge_def)




lemma window_vent_still: "window_vent (replicate 60 (Fin 0)) (Fin 1) = Fin 0"
  by code_simp


lemma minuteVent_still: "minuteVent still_flow (Fin 1) = Some [Fin 0]"
proof -
  have s: "slice still_flow 0 60 = replicate 60 (Fin 0)"
    by (simp add: slice_def still_flow_def)
  show ?thesis
    apply (simp add: minuteVent_def)
    apply (subst mv_loop.simps)
    apply (simp add: still_flow_def jnat_def jsub_def)
    apply (subst mv_loop.simps)
    apply (simp add: jnat_def jsub_def slice_def window_vent_still)
    done
qed

lemma segment_still: "segment still_flow sr = []"
proof -
  have "\<not> rising still_flow i" if "i < 61" for i
    using that by (simp add: rising_def still_flow_def jgt_def)
  then have "filter (rising still_flow) [1..<length still_flow] = []"
    by (simp add: filter_empty_conv still_flow_def)
  then show ?thesis using segment_length[of still_flow sr] by simp
qed

lemma regularity_single: "regularityScore [Fin 0] = Fin 100"
  by (simp add: regularityScore_def sampleEntropy_def countMatches_def clamp_0_100_def jsub_def)

lemma foldl_jadd_nonfinite: "\<forall>a. y \<noteq> Fin a \<Longrightarrow> \<forall>a. foldl jadd y xs \<noteq> Fin a"
proof (induction xs arbitrary: y)
  case Nil
  then show ?case by simp
next
  case (Cons x xs)
  have "\<forall>a. jadd y x \<noteq> Fin a"
    using Cons.prems by (cases y; cases x) auto
  then show ?case using Cons.IH by simp
qed

lemma foldl_jadd_zero:
  assumes "foldl jadd (Fin a) xs = Fin 0" and "0 \<le> a" and "\<forall>x\<in>set xs. non_negative x"
  shows "a = 0 \<and> (\<forall>x\<in>set xs. x = Fin 0)"
  using assms
proof (induction xs arbitrary: a)
  case Nil
  then show ?case by simp
next
  case (Cons x xs)
  show ?case
  proof (cases x)
    case (Fin b)
    then have b: "0 \<le> b" using Cons.prems(3) by simp
    have "foldl jadd (Fin (a + b)) xs = Fin 0" using Cons.prems(1) Fin by simp
    then have "a + b = 0 \<and> (\<forall>x\<in>set xs. x = Fin 0)"
      using Cons.IH[of "a + b"] Cons.prems(2,3) b by simp
    then show ?thesis using Fin b Cons.prems(2) by auto
  next
    case PosInf
    then have "\<forall>c. foldl jadd (jadd (Fin a) x) xs \<noteq> Fin c"
      by (intro foldl_jadd_nonfinite) simp
    then show ?thesis using Cons.prems(1) by simp
  next
    case NegInf
    then show ?thesis using Cons.prems(3) by simp
  next
    case NaN
    then have "\<forall>c. foldl jadd (jadd (Fin a) x) xs \<noteq> Fin c"
      by (intro foldl_jadd_nonfinite) simp
    then show ?thesis using Cons.prems(1) by simp
  qed
qed

lemma foldl_jadd_zeros: "\<forall>x\<in>set xs. x = Fin 0 \<Longrightarrow> foldl jadd (Fin 0) xs = Fin 0"
  by (induction xs) auto

lemma non_negative_magnitude: "non_negative (magnitude c)"
  by (cases "jadd (jmul (fst c) (fst c)) (jmul (snd c) (snd c))") (simp_all add: magnitude_def)

lemma periodicity_zero_total:
  assumes "totalPower mv = Fin 0"
  shows "periodicityIndex mv = NaN"
proof -
  have nn: "\<forall>x\<in>set (power_mv mv). non_negative x"
    by (auto simp: power_mv_def Let_def non_negative_magnitude)
  have z: "\<forall>x\<in>set (power_mv mv). x = Fin 0"
    using foldl_jadd_zero[of 0 "power_mv mv"] assms nn by (simp add: totalPower_def sum_from0_def)
  have "\<forall>x\<in>set (map snd (filter P (enumerate 0 (power_mv mv)))). x = Fin 0" for P
  proof
    fix x assume "x \<in> set (map snd (filter P (enumerate 0 (power_mv mv))))"
    then have "x \<in> set (power_mv mv)" by (auto simp: in_set_enumerate_eq)
    then show "x = Fin 0" using z by blast
  qed
  then have "pbPower mv = Fin 0"
    unfolding pbPower_def Let_def sum_from0_def by (rule foldl_jadd_zeros)
  then show ?thesis using assms by (simp add: periodicityIndex_def)
qed

text \<open>
  Claim C7 does not hold of the code: the quotient \<open>pbPower / totalPower\<close> is not
  guarded. Whenever the total power is 0 the quotient is \<open>0 / 0\<close>, and the periodicity
  index is \<open>NaN\<close>, not 0. That is the case for every series of a single value, whose
  padded length 1 leaves no bin at all, and for every constant series; a waveform of 61
  samples at 1 Hz is reported with \<open>wobblePeriodicity = NaN\<close>.
\<close>

theorem periodicity_zero_power:
  "(totalPower mv = Fin 0 \<longrightarrow> periodicityIndex mv = NaN) \<and>
   totalPower [v] = Fin 0 \<and> periodicityIndex [v] = NaN \<and>
   totalPower [Fin c, Fin c] = Fin 0 \<and> periodicityIndex [Fin c, Fin c] = NaN \<and>
   minuteVent still_flow (Fin 1) = Some [Fin 0] \<and>
   wobble_process still_flow (Fin 1) DEFAULT_SETTINGS =
     Some \<lparr>wobbleFL = Fin 0, wobbleArousal = Fin 0, wobbleRegularity = Fin 100,
           wobblePeriodicity = NaN\<rparr>"
  using periodicity_single[of v] periodicity_pair[of c] periodicity_single[of "Fin 0"]
    periodicity_zero_total[of mv]
  by (simp add: wobble_process_def minuteVent_still flScore_def flScores_def arousals_def
      segment_still regularity_single map_filter_simps)

theorem periodicity_zero_power_witness:
  "totalPower [Fin 7, Fin 7] = Fin 0 \<and> periodicityIndex [Fin 7, Fin 7] = NaN"
proof -
  have z: "totalPower [Fin 7, Fin 7] = Fin 0"
    using periodicity_pair[of 7] by simp
  then show ?thesis
    using periodicity_zero_power[of "[Fin 7, Fin 7]"] by blast
qed

section \<open>Verification: flow limitation\<close>

lemma flScore_spike: "flScore spike_flow (Fin 1) DEFAULT_SETTINGS = Fin 100"
  by code_simp

lemma claimed_flScore_spike: "claimed_flScore spike_flow (Fin 1) DEFAULT_SETTINGS = Fin 0"
  by code_simp

lemma findIndex_first:
  assumes "i < length xs" and "p (xs ! i)" and "\<forall>k<i. \<not> p (xs ! k)"
  shows "findIndex p xs = int i"
  using assms
proof (induction xs arbitrary: i)
  case Nil
  then show ?case by simp
next
  case (Cons x xs)
  show ?case
  proof (cases i)
    case 0
    then show ?thesis using Cons.prems(2) by simp
  next
    case (Suc j)
    have nx: "\<not> p x" using Cons.prems(3) Suc by auto
    have "findIndex p xs = int j"
    proof (rule Cons.IH)
      show "j < length xs" using Cons.prems(1) Suc by simp
      show "p (xs ! j)" using Cons.prems(2) Suc by simp
      show "\<forall>k<j. \<not> p (xs ! k)" using Cons.prems(3) Suc by auto
    qed
    then show ?thesis using nx Suc by simp
  qed
qed

lemma findIndex_none: "\<forall>x\<in>set xs. \<not> p x \<Longrightarrow> findIndex p xs = - 1"
  by (induction xs) auto

lemma findIndex_rev_last:
  assumes "i < length xs" and "p (xs ! i)" and "\<forall>k. i < k \<and> k < length xs \<longrightarrow> \<not> p (xs ! k)"
  shows "int (length xs) - findIndex p (rev xs) = int i + 1"
proof -
  have "findIndex p (rev xs) = int (length xs - 1 - i)"
  proof (rule findIndex_first)
    show "length xs - 1 - i < length (rev xs)" using assms(1) by simp
    show "p (rev xs ! (length xs - 1 - i))" using assms(1,2) by (simp add: rev_nth)
    show "\<forall>k<length xs - 1 - i. \<not> p (rev xs ! k)"
    proof (intro allI impI)
      fix k assume k: "k < length xs - 1 - i"
      then have "i < length xs - Suc k" "length xs - Suc k < length xs" by auto
      then have "\<not> p (xs ! (length xs - Suc k))" using assms(3) by blast
      then show "\<not> p (rev xs ! k)" using k by (simp add: rev_nth)
    qed
  qed
  then show ?thesis using assms(1) by simp
qed

lemma slice_upt: "b \<le> length xs \<Longrightarrow> slice xs a b = map ((!) xs) [a..<b]"
  by (auto simp: slice_def list_eq_iff_nth_eq)

lemma length_normalized: "length (normalized xs) = length xs"
  by (simp add: normalized_def)

lemma breath_flatness_span:
  fixes f :: "jsnum list" and b :: breath
  defines "insp \<equiv> slice f (inspStart b) (inspEnd b)"
  defines "nf \<equiv> normalized insp"
  assumes len: "10 \<le> length insp" and peak: "\<not> jlt (jmax_list insp) (Fin 0.1)"
    and lohi: "lo \<le> hi" "hi < length insp"
    and at: "jgt (nf ! lo) tp" "jgt (nf ! hi) tp"
    and before: "\<forall>k<lo. \<not> jgt (nf ! k) tp"
    and after: "\<forall>k. hi < k \<and> k < length insp \<longrightarrow> \<not> jgt (nf ! k) tp"
  shows "breath_flatness f tp target b =
           Some (flatness_of target (variance_of (map ((!) nf) [lo..<Suc hi])))"
proof -
  have ln: "length nf = length insp" by (simp add: nf_def length_normalized)
  have s: "findIndex (\<lambda>x. jgt x tp) nf = int lo"
    using lohi at(1) before ln by (intro findIndex_first) auto
  have e: "int (length nf) - findIndex (\<lambda>x. jgt x tp) (rev nf) = int hi + 1"
    using lohi at(2) after ln by (intro findIndex_rev_last) auto
  have sl: "slice nf lo (Suc hi) = map ((!) nf) [lo..<Suc hi]"
    using lohi ln by (intro slice_upt) simp
  show ?thesis
    using len peak lohi s e sl
    by (simp add: breath_flatness_def Let_def insp_def[symmetric] nf_def[symmetric]
        nat_add_distrib)
qed

lemma breath_flatness_None:
  fixes f :: "jsnum list" and b :: breath
  defines "insp \<equiv> slice f (inspStart b) (inspEnd b)"
  defines "nf \<equiv> normalized insp"
  shows "breath_flatness f tp target b = None \<longleftrightarrow>
           length insp < 10 \<or> jlt (jmax_list insp) (Fin 0.1) \<or>
           (\<forall>k<length insp. \<not> jgt (nf ! k) tp)"
proof (cases "length insp < 10 \<or> jlt (jmax_list insp) (Fin 0.1)")
  case True
  then show ?thesis by (auto simp: breath_flatness_def Let_def insp_def)
next
  case False
  have ln: "length nf = length insp" by (simp add: nf_def length_normalized)
  show ?thesis
  proof (cases "\<exists>k<length insp. jgt (nf ! k) tp")
    case ex: True
    define P where "P = (\<lambda>k. k < length insp \<and> jgt (nf ! k) tp)"
    have exP: "\<exists>k. P k" using ex by (auto simp: P_def)
    define lo where "lo = (LEAST k. P k)"
    have lo: "P lo" unfolding lo_def using exP by (auto intro: LeastI_ex)
    have lo_min: "\<forall>k<lo. \<not> jgt (nf ! k) tp"
    proof (intro allI impI)
      fix k assume "k < lo"
      then have "\<not> P k" unfolding lo_def by (rule not_less_Least)
      moreover have "k < length insp" using \<open>k < lo\<close> lo by (simp add: P_def)
      ultimately show "\<not> jgt (nf ! k) tp" by (simp add: P_def)
    qed
    define hi where "hi = (GREATEST k. P k)"
    have bound: "\<And>k. P k \<Longrightarrow> k \<le> length insp" by (simp add: P_def)
    have hi: "P hi" unfolding hi_def using lo bound by (rule GreatestI_nat[where b = "length insp"])
    have hi_max: "\<forall>k. hi < k \<and> k < length insp \<longrightarrow> \<not> jgt (nf ! k) tp"
    proof (intro allI impI)
      fix k assume k: "hi < k \<and> k < length insp"
      show "\<not> jgt (nf ! k) tp"
      proof
        assume "jgt (nf ! k) tp"
        then have "P k" using k by (simp add: P_def)
        then have "k \<le> hi" unfolding hi_def using bound by (rule Greatest_le_nat[where b = "length insp"])
        then show False using k by simp
      qed
    qed
    have "lo \<le> hi" unfolding hi_def using lo bound by (rule Greatest_le_nat[where b = "length insp"])
    then have "breath_flatness f tp target b =
           Some (flatness_of target (variance_of (map ((!) nf) [lo..<Suc hi])))"
      unfolding nf_def insp_def
      using False lo hi lo_min hi_max
      by (intro breath_flatness_span) (auto simp: P_def nf_def insp_def)
    then show ?thesis using False ex by auto
  next
    case nex: False
    then have "\<forall>x\<in>set nf. \<not> jgt x tp"
      using ln by (auto simp: in_set_conv_nth)
    then have "findIndex (\<lambda>x. jgt x tp) nf = - 1"
      by (rule findIndex_none)
    then show ?thesis using False nex
      by (auto simp: breath_flatness_def Let_def insp_def[symmetric] nf_def[symmetric])
  qed
qed

lemma foldl_jadd_Fin: "foldl jadd (Fin s) (map Fin as) = Fin (s + sum_list as)"
  by (induction as arbitrary: s) (simp_all add: add.assoc)

lemma mean_of_Fin: "as \<noteq> [] \<Longrightarrow> mean_of (map Fin as) = Fin (sum_list as / real (length as))"
  by (cases as) (simp_all add: mean_of_def reduce_add_def foldl_jadd_Fin jnat_def)

lemma foldl_sq_Fin:
  "foldl (\<lambda>sum val. let diff = jsub val (Fin m) in jadd sum (jmul diff diff)) (Fin s) (map Fin as)
     = Fin (s + (\<Sum>a\<leftarrow>as. (a - m)\<^sup>2))"
  by (induction as arbitrary: s) (simp_all add: jsub_def Let_def power2_eq_square add.assoc)

lemma variance_of_Fin:
  "as \<noteq> [] \<Longrightarrow>
     variance_of (map Fin as) =
       Fin ((\<Sum>a\<leftarrow>as. (a - sum_list as / real (length as))\<^sup>2) / real (length as))"
  by (simp add: variance_of_def mean_of_Fin foldl_sq_Fin jnat_def)

lemma flatness_of_Fin:
  "t \<noteq> 0 \<Longrightarrow> flatness_of (Fin t) (Fin v) = Fin (max 0 (min 100 ((t - v) / t * 100)))"
  by (simp add: flatness_of_def clamp_0_100_def jsub_def max_def min_def)

lemma flScore_mean:
  "flScore f sr s =
     (let scores = List.map_filter
            (breath_flatness f (or_default (flTopPercentage s) (Fin 0.5))
               (or_default (flFlatnessTarget s) (Fin 0.05)))
            (segment f sr)
      in if scores = [] then Fin 0
         else jdiv (foldl jadd (hd scores) (tl scores)) (jnat (length scores)))"
  by (simp add: flScore_def flScores_def mean_of_def reduce_add_def Let_def)

text \<open>
  Claim C5, as stated, fails where a breath has exactly one normalized sample above the
  threshold: \<open>topHalfEnd\<close> is one past the last such index, so the test
  \<open>topHalfEnd > topHalfStart\<close> holds whenever any sample exceeds the threshold. The
  breath of \<open>spike_flow\<close> has its first and its last such index both at 5; the claim
  leaves it out and gives the result 0, the code scores it 100.
\<close>

theorem flow_limitation_counterexample:
  "flScore spike_flow (Fin 1) DEFAULT_SETTINGS = Fin 100 \<and>
   claimed_flScore spike_flow (Fin 1) DEFAULT_SETTINGS = Fin 0 \<and>
   spec_top_span (Fin 0.5) (normalized (slice spike_flow 1 11)) = Some (5, 5)"
proof -
  have "spec_top_span (Fin 0.5) (normalized (slice spike_flow 1 11)) = Some (5, 5)"
    by code_simp
  then show ?thesis by (simp only: flScore_spike claimed_flScore_spike simp_thms)
qed

text \<open>
  Claim C5, amended. For a breath whose inspiratory span has at least 10 samples and a
  peak not below 0.1, and whose normalized samples exceed \<open>flTopPercentage\<close> first at
  \<open>lo\<close> and last at \<open>hi\<close> (\<open>lo \<le> hi\<close>: the two may be the same index), the flatness is
  \<open>clamp(0, 100, (target - variance) / target * 100)\<close> with the variance of the
  normalized values from \<open>lo\<close> to \<open>hi\<close> inclusive. A breath gets no flatness exactly
  when its span is shorter than 10 samples, its peak is below 0.1, or no normalized
  sample exceeds the threshold. The result is the sum of the flatness values over their
  number, and 0 when there is none. On finite numbers the clamped expression is the one
  over the reals with the population variance, and variance 0 under the target 0.05
  gives 100.
\<close>

theorem flow_limitation_flatness:
  fixes f :: "jsnum list" and b :: breath
  defines "insp \<equiv> slice f (inspStart b) (inspEnd b)"
  defines "nf \<equiv> normalized insp"
  shows
   "(10 \<le> length insp \<and> \<not> jlt (jmax_list insp) (Fin 0.1) \<and> lo \<le> hi \<and> hi < length insp \<and>
     jgt (nf ! lo) tp \<and> jgt (nf ! hi) tp \<and> (\<forall>k<lo. \<not> jgt (nf ! k) tp) \<and>
     (\<forall>k. hi < k \<and> k < length insp \<longrightarrow> \<not> jgt (nf ! k) tp) \<longrightarrow>
       breath_flatness f tp target b =
         Some (clamp_0_100
           (jmul (jdiv (jsub target (variance_of (map ((!) nf) [lo..<Suc hi]))) target) (Fin 100)))) \<and>
    (breath_flatness f tp target b = None \<longleftrightarrow>
       length insp < 10 \<or> jlt (jmax_list insp) (Fin 0.1) \<or> (\<forall>k<length insp. \<not> jgt (nf ! k) tp)) \<and>
    flScore f sr s =
      (let scores = List.map_filter
             (breath_flatness f (or_default (flTopPercentage s) (Fin 0.5))
                (or_default (flFlatnessTarget s) (Fin 0.05)))
             (segment f sr)
       in if scores = [] then Fin 0
          else jdiv (foldl jadd (hd scores) (tl scores)) (jnat (length scores))) \<and>
    (as \<noteq> [] \<and> t \<noteq> 0 \<longrightarrow>
       clamp_0_100 (jmul (jdiv (jsub (Fin t) (variance_of (map Fin as))) (Fin t)) (Fin 100)) =
         Fin (max 0 (min 100
           ((t - (\<Sum>a\<leftarrow>as. (a - sum_list as / real (length as))\<^sup>2) / real (length as)) / t * 100)))) \<and>
    clamp_0_100 (jmul (jdiv (jsub (Fin 0.05) (Fin 0)) (Fin 0.05)) (Fin 100)) = Fin 100"
proof (intro conjI impI)
  assume h: "10 \<le> length insp \<and> \<not> jlt (jmax_list insp) (Fin 0.1) \<and> lo \<le> hi \<and> hi < length insp \<and>
     jgt (nf ! lo) tp \<and> jgt (nf ! hi) tp \<and> (\<forall>k<lo. \<not> jgt (nf ! k) tp) \<and>
     (\<forall>k. hi < k \<and> k < length insp \<longrightarrow> \<not> jgt (nf ! k) tp)"
  then have "breath_flatness f tp target b =
           Some (flatness_of target (variance_of (map ((!) nf) [lo..<Suc hi])))"
    unfolding nf_def insp_def by (intro breath_flatness_span) simp_all
  then show "breath_flatness f tp target b =
         Some (clamp_0_100
           (jmul (jdiv (jsub target (variance_of (map ((!) nf) [lo..<Suc hi]))) target) (Fin 100)))"
    by (simp add: flatness_of_def)
next
  show "breath_flatness f tp target b = None \<longleftrightarrow>
       length insp < 10 \<or> jlt (jmax_list insp) (Fin 0.1) \<or> (\<forall>k<length insp. \<not> jgt (nf ! k) tp)"
    unfolding nf_def insp_def by (rule breath_flatness_None)
next
  show "flScore f sr s =
      (let scores = List.map_filter
             (breath_flatness f (or_default (flTopPercentage s) (Fin 0.5))
                (or_default (flFlatnessTarget s) (Fin 0.05)))
             (segment f sr)
       in if scores = [] then Fin 0
          else jdiv (foldl jadd (hd scores) (tl scores)) (jnat (length scores)))"
    by (rule flScore_mean)
next
  assume "as \<noteq> [] \<and> t \<noteq> 0"
  then show "clamp_0_100 (jmul (jdiv (jsub (Fin t) (variance_of (map Fin as))) (Fin t)) (Fin 100)) =
         Fin (max 0 (min 100
           ((t - (\<Sum>a\<leftarrow>as. (a - sum_list as / real (length as))\<^sup>2) / real (length as)) / t * 100)))"
    using flatness_of_Fin[of t] by (simp add: variance_of_Fin flatness_of_def)
next
  show "clamp_0_100 (jmul (jdiv (jsub (Fin 0.05) (Fin 0)) (Fin 0.05)) (Fin 100)) = Fin 100"
    by (simp add: clamp_0_100_def jsub_def)
qed

theorem flow_limitation_flatness_witness:
  "10 \<le> length (slice spike_flow (inspStart spike_breath) (inspEnd spike_breath)) \<and>
   jgt (normalized (slice spike_flow (inspStart spike_breath) (inspEnd spike_breath)) ! 5) (Fin 0.5) \<and>
   segment spike_flow (Fin 1) = [spike_breath] \<and>
   breath_flatness spike_flow (Fin 0.5) (Fin 0.05) spike_breath = Some (Fin 100)"
proof -
  let ?insp = "slice spike_flow (inspStart spike_breath) (inspEnd spike_breath)"
  let ?nf = "normalized ?insp"
  have l: "length ?insp = 10" by code_simp
  have h1: "10 \<le> length ?insp" by code_simp
  have h2: "\<not> jlt (jmax_list ?insp) (Fin 0.1)" by code_simp
  have h3: "jgt (?nf ! 5) (Fin 0.5)" by code_simp
  have "list_all (\<lambda>k. \<not> jgt (?nf ! k) (Fin 0.5)) [0..<5]" by code_simp
  then have "\<forall>k\<in>{0..<5}. \<not> jgt (?nf ! k) (Fin 0.5)" by (simp only: list_all_iff set_upt)
  then have h4: "\<forall>k<5. \<not> jgt (?nf ! k) (Fin 0.5)" by auto
  have "list_all (\<lambda>k. \<not> jgt (?nf ! k) (Fin 0.5)) [6..<10]" by code_simp
  then have "\<forall>k\<in>{6..<10}. \<not> jgt (?nf ! k) (Fin 0.5)" by (simp only: list_all_iff set_upt)
  then have h5: "\<forall>k. 5 < k \<and> k < length ?insp \<longrightarrow> \<not> jgt (?nf ! k) (Fin 0.5)"
    unfolding l by auto
  have h6: "(5::nat) \<le> 5 \<and> 5 < length ?insp" by (simp add: l)
  have "breath_flatness spike_flow (Fin 0.5) (Fin 0.05) spike_breath =
         Some (clamp_0_100
           (jmul (jdiv (jsub (Fin 0.05) (variance_of (map ((!) ?nf) [5..<Suc 5]))) (Fin 0.05)) (Fin 100)))"
    using flow_limitation_flatness[of spike_flow spike_breath 5 5 "Fin 0.5" "Fin 0.05"]
      h1 h2 h3 h4 h5 h6 by blast
  moreover have "clamp_0_100
           (jmul (jdiv (jsub (Fin 0.05) (variance_of (map ((!) ?nf) [5..<Suc 5]))) (Fin 0.05)) (Fin 100))
         = Fin 100"
    by code_simp
  moreover have "segment spike_flow (Fin 1) = [spike_breath]" by code_simp
  ultimately show ?thesis using h1 h3 by simp
qed

section \<open>Verification: arousal estimation\<close>

lemma arousal_flow_metrics:
  "breathMetrics arousal_flow (Fin 1) (segment arousal_flow (Fin 1)) = arousal_metrics"
  by code_simp

lemma arousal_flow_breaths: "length (segment arousal_flow (Fin 1)) = 11"
  by code_simp

lemma arousal_flow_hours: "totalDurationHours arousal_flow (Fin 1) = Fin (43 / 3600)"
  by code_simp

lemma arousal_prefix_Suc:
  "arousal_prefix s ms (Suc k) = arousal_step s ms (arousal_prefix s ms k) k"
  by (simp add: arousal_prefix_def)

lemma arousalList_prefix: "arousalList s ms = arousal_prefix s ms (length ms)"
  by (simp add: arousalList_def arousal_prefix_def)

lemma arousal_prefix_members:
  "a \<in> set (arousal_prefix s ms k) \<Longrightarrow> \<exists>i<k. a = time (ms ! i) \<and> qualifies s ms i"
proof (induction k)
  case 0
  then show ?case by (simp add: arousal_prefix_def)
next
  case (Suc k)
  then show ?case
    by (auto simp: arousal_prefix_Suc arousal_step_def Let_def less_Suc_eq split: if_splits)
qed

lemma spaced_snoc:
  assumes "spaced xs" and "xs = [] \<or> \<not> jlt (jsub t (last xs)) (Fin 15)"
  shows "spaced (xs @ [t])"
  unfolding spaced_def
proof (intro allI impI)
  fix k assume k: "Suc k < length (xs @ [t])"
  show "\<not> jlt (jsub ((xs @ [t]) ! Suc k) ((xs @ [t]) ! k)) (Fin 15)"
  proof (cases "Suc k < length xs")
    case True
    then show ?thesis using assms(1) by (simp add: spaced_def nth_append)
  next
    case False
    then have e: "length xs = Suc k" using k by simp
    then have ne: "xs \<noteq> []" by auto
    have "last xs = xs ! k" using e ne by (simp add: last_conv_nth)
    then show ?thesis using assms(2) e ne by (simp add: nth_append)
  qed
qed

lemma arousal_prefix_spaced: "spaced (arousal_prefix s ms k)"
proof (induction k)
  case 0
  show ?case by (simp add: arousal_prefix_def spaced_def)
next
  case (Suc k)
  show ?case
  proof (cases "arousal_step s ms (arousal_prefix s ms k) k = arousal_prefix s ms k")
    case True
    then show ?thesis using Suc by (simp add: arousal_prefix_Suc)
  next
    case False
    then have app: "arousal_step s ms (arousal_prefix s ms k) k = arousal_prefix s ms k @ [time (ms ! k)]"
      and nr: "arousal_prefix s ms k = [] \<or>
               \<not> jlt (jsub (time (ms ! k)) (last (arousal_prefix s ms k))) (Fin 15)"
      by (auto simp: arousal_step_def Let_def split: if_splits)
    show ?thesis unfolding arousal_prefix_Suc app using Suc nr by (rule spaced_snoc)
  qed
qed

lemma arousal_two_within:
  assumes ij: "i < j" "j < length ms"
    and qi: "qualifies s ms i" and qj: "qualifies s ms j"
    and only: "\<forall>k<length ms. qualifies s ms k \<longrightarrow> k = i \<or> k = j"
    and near: "jlt (jsub (time (ms ! j)) (time (ms ! i))) (Fin 15)"
  shows "arousalList s ms = [time (ms ! i)]"
proof -
  have "k \<le> length ms \<Longrightarrow> arousal_prefix s ms k = (if k \<le> i then [] else [time (ms ! i)])" for k
  proof (induction k)
    case 0
    show ?case by (simp add: arousal_prefix_def)
  next
    case (Suc k)
    then have IH: "arousal_prefix s ms k = (if k \<le> i then [] else [time (ms ! i)])" by simp
    have k: "k < length ms" using Suc.prems by simp
    consider "k < i" | "k = i" | "i < k" "k = j" | "i < k" "k \<noteq> j" by linarith
    then show ?case
    proof cases
      case 1
      have "k \<noteq> i" "k \<noteq> j" using 1 ij by auto
      then have "\<not> qualifies s ms k" using only k by blast
      then show ?thesis using 1 IH by (simp add: arousal_prefix_Suc arousal_step_def)
    next
      case 2
      then show ?thesis using IH qi by (simp add: arousal_prefix_Suc arousal_step_def)
    next
      case 3
      then show ?thesis using IH qj near by (simp add: arousal_prefix_Suc arousal_step_def)
    next
      case 4
      have "k \<noteq> i" "k \<noteq> j" using 4 by auto
      then have "\<not> qualifies s ms k" using only k by blast
      then show ?thesis using 4 IH by (simp add: arousal_prefix_Suc arousal_step_def)
    qed
  qed
  from this[of "length ms"] show ?thesis using ij by (simp add: arousalList_prefix)
qed

lemma arousal_suppressed:
  assumes "qualifies s ms k" and "arousal_prefix s ms k \<noteq> []"
    and "jlt (jsub (time (ms ! k)) (last (arousal_prefix s ms k))) (Fin 15)"
  shows "arousal_prefix s ms (Suc k) = arousal_prefix s ms k"
  using assms by (simp add: arousal_prefix_Suc arousal_step_def)

lemma arousal_recorded:
  assumes "qualifies s ms k"
    and "arousal_prefix s ms k = [] \<or>
         \<not> jlt (jsub (time (ms ! k)) (last (arousal_prefix s ms k))) (Fin 15)"
  shows "arousal_prefix s ms (Suc k) = arousal_prefix s ms k @ [time (ms ! k)]"
  using assms by (auto simp: arousal_prefix_Suc arousal_step_def)

text \<open>
  Claim C6. Every recorded arousal is the time of a breath metric that qualifies, and a
  metric qualifies when it has at least five baseline metrics and its rate increase
  over the baseline mean exceeds \<open>arousalRateIncreaseMin\<close> or its volume increase exceeds
  \<open>arousalVolIncreaseMin\<close>. No recorded arousal is less than 15 seconds after the one
  recorded before it: a qualifying metric within 15 seconds of the last recorded arousal
  leaves the list as it is, any other qualifying metric is appended. When exactly two
  metrics qualify and the second is within 15 seconds of the first, one arousal is
  recorded, the first. With at least 10 breaths and a positive total duration, the
  result is the number of recorded arousals divided by the duration in hours,
  \<open>(length / samplingRate) / 3600\<close>.
\<close>

theorem arousal_debounce:
  "(\<forall>a\<in>set (arousalList s ms). \<exists>i<length ms. a = time (ms ! i) \<and> qualifies s ms i) \<and>
   (qualifies s ms n \<longleftrightarrow>
      5 \<le> length (baselineMetrics (or_default (arousalBaselineWindowSec s) (Fin 120)) ms n) \<and>
      (jgt (rateIncrease (or_default (arousalBaselineWindowSec s) (Fin 120)) ms n)
           (or_default (arousalRateIncreaseMin s) (Fin 0.20)) \<or>
       jgt (volumeIncrease (or_default (arousalBaselineWindowSec s) (Fin 120)) ms n)
           (or_default (arousalVolIncreaseMin s) (Fin 0.30)))) \<and>
   (\<forall>k. Suc k < length (arousalList s ms) \<longrightarrow>
        \<not> jlt (jsub (arousalList s ms ! Suc k) (arousalList s ms ! k)) (Fin 15)) \<and>
   (qualifies s ms k \<and> arousal_prefix s ms k \<noteq> [] \<and>
    jlt (jsub (time (ms ! k)) (last (arousal_prefix s ms k))) (Fin 15) \<longrightarrow>
      arousal_prefix s ms (Suc k) = arousal_prefix s ms k) \<and>
   (qualifies s ms k \<and>
    (arousal_prefix s ms k = [] \<or>
     \<not> jlt (jsub (time (ms ! k)) (last (arousal_prefix s ms k))) (Fin 15)) \<longrightarrow>
      arousal_prefix s ms (Suc k) = arousal_prefix s ms k @ [time (ms ! k)]) \<and>
   (i < j \<and> j < length ms \<and> qualifies s ms i \<and> qualifies s ms j \<and>
    (\<forall>k<length ms. qualifies s ms k \<longrightarrow> k = i \<or> k = j) \<and>
    jlt (jsub (time (ms ! j)) (time (ms ! i))) (Fin 15) \<longrightarrow>
      arousalList s ms = [time (ms ! i)]) \<and>
   (10 \<le> length (segment f sr) \<and> jgt (totalDurationHours f sr) (Fin 0) \<longrightarrow>
      arousals f sr s =
        jdiv (jnat (length (arousalList s (breathMetrics f sr (segment f sr)))))
             (totalDurationHours f sr)) \<and>
   totalDurationHours f sr = jdiv (jdiv (jnat (length f)) sr) (Fin 3600)"
proof (intro conjI impI ballI)
  fix a assume "a \<in> set (arousalList s ms)"
  then show "\<exists>i<length ms. a = time (ms ! i) \<and> qualifies s ms i"
    unfolding arousalList_prefix by (rule arousal_prefix_members)
next
  show "qualifies s ms n \<longleftrightarrow>
      5 \<le> length (baselineMetrics (or_default (arousalBaselineWindowSec s) (Fin 120)) ms n) \<and>
      (jgt (rateIncrease (or_default (arousalBaselineWindowSec s) (Fin 120)) ms n)
           (or_default (arousalRateIncreaseMin s) (Fin 0.20)) \<or>
       jgt (volumeIncrease (or_default (arousalBaselineWindowSec s) (Fin 120)) ms n)
           (or_default (arousalVolIncreaseMin s) (Fin 0.30)))"
    by (simp add: qualifies_def Let_def not_less)
next
  show "\<forall>k. Suc k < length (arousalList s ms) \<longrightarrow>
        \<not> jlt (jsub (arousalList s ms ! Suc k) (arousalList s ms ! k)) (Fin 15)"
    using arousal_prefix_spaced[of s ms "length ms"]
    by (simp add: arousalList_prefix spaced_def)
next
  assume "qualifies s ms k \<and> arousal_prefix s ms k \<noteq> [] \<and>
    jlt (jsub (time (ms ! k)) (last (arousal_prefix s ms k))) (Fin 15)"
  then show "arousal_prefix s ms (Suc k) = arousal_prefix s ms k"
    by (intro arousal_suppressed) simp_all
next
  assume "qualifies s ms k \<and>
    (arousal_prefix s ms k = [] \<or>
     \<not> jlt (jsub (time (ms ! k)) (last (arousal_prefix s ms k))) (Fin 15))"
  then show "arousal_prefix s ms (Suc k) = arousal_prefix s ms k @ [time (ms ! k)]"
    by (intro arousal_recorded) simp_all
next
  assume "i < j \<and> j < length ms \<and> qualifies s ms i \<and> qualifies s ms j \<and>
    (\<forall>k<length ms. qualifies s ms k \<longrightarrow> k = i \<or> k = j) \<and>
    jlt (jsub (time (ms ! j)) (time (ms ! i))) (Fin 15)"
  then show "arousalList s ms = [time (ms ! i)]"
    by (intro arousal_two_within[of i j]) simp_all
next
  assume "10 \<le> length (segment f sr) \<and> jgt (totalDurationHours f sr) (Fin 0)"
  then show "arousals f sr s =
        jdiv (jnat (length (arousalList s (breathMetrics f sr (segment f sr)))))
             (totalDurationHours f sr)"
    by (simp add: arousals_def Let_def)
next
  show "totalDurationHours f sr = jdiv (jdiv (jnat (length f)) sr) (Fin 3600)"
    by (simp add: totalDurationHours_def)
qed

theorem arousal_debounce_witness:
  "10 \<le> length (segment arousal_flow (Fin 1)) \<and>
   jgt (totalDurationHours arousal_flow (Fin 1)) (Fin 0) \<and>
   breathMetrics arousal_flow (Fin 1) (segment arousal_flow (Fin 1)) = arousal_metrics \<and>
   qualifies DEFAULT_SETTINGS arousal_metrics 5 \<and>
   qualifies DEFAULT_SETTINGS arousal_metrics 6 \<and>
   jlt (jsub (time (arousal_metrics ! 6)) (time (arousal_metrics ! 5))) (Fin 15) \<and>
   arousalList DEFAULT_SETTINGS arousal_metrics = [Fin 24] \<and>
   arousals arousal_flow (Fin 1) DEFAULT_SETTINGS = Fin (3600 / 43)"
proof -
  note t = arousal_debounce[of DEFAULT_SETTINGS arousal_metrics _ _ 5 6 arousal_flow "Fin 1"]
  have l: "length arousal_metrics = 10" by (simp add: arousal_metrics_def)
  have q5: "qualifies DEFAULT_SETTINGS arousal_metrics 5"
    and q6: "qualifies DEFAULT_SETTINGS arousal_metrics 6"
    by code_simp+
  have "list_all (\<lambda>k. qualifies DEFAULT_SETTINGS arousal_metrics k \<longrightarrow> k = 5 \<or> k = 6) [0..<10]"
    by code_simp
  then have "\<forall>k\<in>{0..<10}. qualifies DEFAULT_SETTINGS arousal_metrics k \<longrightarrow> k = 5 \<or> k = 6"
    by (simp only: list_all_iff set_upt)
  then have only: "\<forall>k<length arousal_metrics.
      qualifies DEFAULT_SETTINGS arousal_metrics k \<longrightarrow> k = 5 \<or> k = 6"
    unfolding l by auto
  have near: "jlt (jsub (time (arousal_metrics ! 6)) (time (arousal_metrics ! 5))) (Fin 15)"
    by code_simp
  have "arousalList DEFAULT_SETTINGS arousal_metrics = [time (arousal_metrics ! 5)]"
    using t q5 q6 only near l by simp
  then have al: "arousalList DEFAULT_SETTINGS arousal_metrics = [Fin 24]"
    by (simp add: arousal_metrics_def)
  have b: "10 \<le> length (segment arousal_flow (Fin 1))"
    by (simp add: arousal_flow_breaths)
  have h: "jgt (totalDurationHours arousal_flow (Fin 1)) (Fin 0)"
    by (simp add: arousal_flow_hours jgt_def)
  have "arousals arousal_flow (Fin 1) DEFAULT_SETTINGS =
        jdiv (jnat (length (arousalList DEFAULT_SETTINGS
                (breathMetrics arousal_flow (Fin 1) (segment arousal_flow (Fin 1))))))
             (totalDurationHours arousal_flow (Fin 1))"
    using t b h by blast
  then have r: "arousals arousal_flow (Fin 1) DEFAULT_SETTINGS = Fin (3600 / 43)"
    by (simp add: arousal_flow_metrics al arousal_flow_hours jnat_def)
  show ?thesis using b h q5 q6 near al r by (simp add: arousal_flow_metrics)
qed

section \<open>Verification: the analysis engine\<close>



lemma world_after_snoc:
  "world_after (tools @ [tool]) f sr st w =
     snd (run_tool tool f sr st (world_after tools f sr st w))"
  by (simp add: world_after_def)








section \<open>Verification: decoding the data records\<close>

subsection \<open>What the three loops read\<close>

lemma ebind_Inr: "ebind m f = Inr y \<longleftrightarrow> (\<exists>x. m = Inr x \<and> f x = Inr y)"
  by (cases m) (auto simp: ebind_def)

lemma getInt16_Some:
  "getInt16 buffer (Some (int off)) = Inr d \<Longrightarrow> d = int16_at buffer off \<and> off + 2 \<le> length buffer"
  by (auto simp: getInt16_def split: if_splits)

lemma read_samples_values:
  assumes "read_samples buffer sg (Some (int off)) k = Inr (vs, off')"
  shows "off' = Some (int (off + 2 * k)) \<and>
         vs = map (\<lambda>s. physVal sg (int16_at buffer (off + 2 * s))) [0..<k]"
  using assms
proof (induction k arbitrary: off vs off')
  case 0
  then show ?case by simp
next
  case (Suc k)
  from Suc.prems obtain d vs1 where d: "getInt16 buffer (Some (int off)) = Inr d"
    and r: "read_samples buffer sg (Some (int (off + 2))) k = Inr (vs1, off')"
    and v: "vs = physVal sg d # vs1"
    by (auto simp: ebind_Inr add.commute)
  have dv: "d = int16_at buffer off"
    using getInt16_Some[OF d] by auto
  from Suc.IH[OF r] have o: "off' = Some (int (off + 2 + 2 * k))"
    and vs1: "vs1 = map (\<lambda>s. physVal sg (int16_at buffer (off + 2 + 2 * s))) [0..<k]"
    by auto
  have "map (\<lambda>s. physVal sg (int16_at buffer (off + 2 * s))) [0..<Suc k] =
        physVal sg (int16_at buffer off) # map (\<lambda>s. physVal sg (int16_at buffer (off + 2 + 2 * s))) [0..<k]"
    by (simp add: upt_conv_Cons map_Suc_upt[symmetric] del: upt_Suc)
  then show ?case using o vs1 v dv by auto
qed

lemma physVal_strip [simp]: "physVal (strip sg) = physVal sg"
  by (rule ext) (simp add: physVal_def strip_def)

lemma samples_count_strip [simp]: "samples_count (strip sg) = samples_count sg"
  by (simp add: samples_count_def strip_def)

lemma strip_update [simp]: "strip (sg\<lparr>physicalValues := vs\<rparr>) = strip sg"
  by (simp add: strip_def)

lemma record_samples_strip: "record_samples (map strip sgs) = record_samples sgs"
  by (simp add: record_samples_def comp_def)

lemma record_samples_cong:
  assumes "map strip sgs' = map strip sgs"
  shows "record_samples sgs' = record_samples sgs"
  using record_samples_strip[of sgs'] record_samples_strip[of sgs] assms by simp

lemma record_values_cong:
  assumes m: "map strip sgs' = map strip sgs" and c: "c < length sgs"
  shows "record_values buffer sgs' off c = record_values buffer sgs off c"
proof -
  have l: "length sgs' = length sgs" using m by (metis length_map)
  have "strip (sgs' ! c) = strip (sgs ! c)"
    using m c l by (metis nth_map)
  then have p: "physVal (sgs' ! c) = physVal (sgs ! c)"
    and n: "samples_count (sgs' ! c) = samples_count (sgs ! c)"
    by (metis physVal_strip, metis samples_count_strip)
  have "map strip (take c sgs') = map strip (take c sgs)"
    using m by (simp add: take_map[symmetric])
  then have t: "record_samples (take c sgs') = record_samples (take c sgs)"
    by (rule record_samples_cong)
  show ?thesis by (simp add: record_values_def p n t)
qed

lemma read_signals_values:
  assumes "read_signals buffer sgs (Some (int off)) = Inr (sgs', off')"
  shows "off' = Some (int (off + 2 * record_samples sgs)) \<and> length sgs' = length sgs \<and>
         (\<forall>c<length sgs. sgs' ! c =
            (sgs ! c)\<lparr>physicalValues := physicalValues (sgs ! c) @ record_values buffer sgs off c\<rparr>)"
  using assms
proof (induction sgs arbitrary: off sgs' off')
  case Nil
  then show ?case by (simp add: record_samples_def)
next
  case (Cons sg sgs)
  from Cons.prems obtain vs o1 sgs1 where
    rs: "read_samples buffer sg (Some (int off)) (samples_count sg) = Inr (vs, o1)"
    and rr: "read_signals buffer sgs o1 = Inr (sgs1, off')"
    and s': "sgs' = sg\<lparr>physicalValues := physicalValues sg @ vs\<rparr> # sgs1"
    by (auto simp: ebind_Inr samples_count_def)
  from read_samples_values[OF rs] have o1: "o1 = Some (int (off + 2 * samples_count sg))"
    and vs: "vs = map (\<lambda>s. physVal sg (int16_at buffer (off + 2 * s))) [0..<samples_count sg]"
    by auto
  from Cons.IH[OF rr[unfolded o1]]
  have o': "off' = Some (int (off + 2 * samples_count sg + 2 * record_samples sgs))"
    and l: "length sgs1 = length sgs"
    and v: "\<And>c. c < length sgs \<Longrightarrow> sgs1 ! c =
            (sgs ! c)\<lparr>physicalValues := physicalValues (sgs ! c) @
               record_values buffer sgs (off + 2 * samples_count sg) c\<rparr>"
    by auto
  have r0: "record_values buffer (sg # sgs) off 0 = vs"
    by (simp add: record_values_def record_samples_def vs)
  have rS: "record_values buffer (sg # sgs) off (Suc c) =
            record_values buffer sgs (off + 2 * samples_count sg) c" for c
    by (simp add: record_values_def record_samples_def algebra_simps)
  have "sgs' ! c = ((sg # sgs) ! c)\<lparr>physicalValues := physicalValues ((sg # sgs) ! c) @
           record_values buffer (sg # sgs) off c\<rparr>" if "c < length (sg # sgs)" for c
  proof (cases c)
    case 0
    then show ?thesis by (simp add: s' r0)
  next
    case (Suc c')
    then show ?thesis using that v[of c'] by (simp add: s' rS)
  qed
  then show ?case using o' l by (simp add: s' record_samples_def)
qed

lemma read_signals_strip:
  assumes "read_signals buffer sgs (Some (int off)) = Inr (sgs', off')"
  shows "map strip sgs' = map strip sgs"
proof (rule nth_equalityI)
  from read_signals_values[OF assms] have l: "length sgs' = length sgs"
    and v: "\<And>c. c < length sgs \<Longrightarrow> sgs' ! c =
            (sgs ! c)\<lparr>physicalValues := physicalValues (sgs ! c) @ record_values buffer sgs off c\<rparr>"
    by auto
  show "length (map strip sgs') = length (map strip sgs)" using l by simp
  fix i assume "i < length (map strip sgs')"
  then have i: "i < length sgs" using l by simp
  then show "map strip sgs' ! i = map strip sgs ! i"
    using l v[OF i] by simp
qed

lemma read_records_values:
  assumes "read_records buffer sgs (Some (int off)) R = Inr (sgs', off')"
  shows "map strip sgs' = map strip sgs \<and>
         (\<forall>c<length sgs. physicalValues (sgs' ! c) = physicalValues (sgs ! c) @
            concat (map (\<lambda>r. record_values buffer sgs (off + 2 * (r * record_samples sgs)) c) [0..<R]))"
  using assms
proof (induction R arbitrary: sgs off)
  case 0
  then show ?case by simp
next
  case (Suc R)
  from Suc.prems obtain sgs1 o1 where
    rs: "read_signals buffer sgs (Some (int off)) = Inr (sgs1, o1)"
    and rr: "read_records buffer sgs1 o1 R = Inr (sgs', off')"
    by (auto simp: ebind_Inr)
  from read_signals_values[OF rs] have o1: "o1 = Some (int (off + 2 * record_samples sgs))"
    and l: "length sgs1 = length sgs"
    and v: "\<And>c. c < length sgs \<Longrightarrow> sgs1 ! c =
            (sgs ! c)\<lparr>physicalValues := physicalValues (sgs ! c) @ record_values buffer sgs off c\<rparr>"
    by auto
  have st: "map strip sgs1 = map strip sgs" by (rule read_signals_strip[OF rs])
  have rsm: "record_samples sgs1 = record_samples sgs" by (rule record_samples_cong[OF st])
  from Suc.IH[OF rr[unfolded o1]]
  have st': "map strip sgs' = map strip sgs1"
    and v': "\<And>c. c < length sgs1 \<Longrightarrow> physicalValues (sgs' ! c) = physicalValues (sgs1 ! c) @
            concat (map (\<lambda>r. record_values buffer sgs1
                          (off + 2 * record_samples sgs + 2 * (r * record_samples sgs1)) c) [0..<R])"
    by auto
  have "physicalValues (sgs' ! c) = physicalValues (sgs ! c) @
            concat (map (\<lambda>r. record_values buffer sgs (off + 2 * (r * record_samples sgs)) c) [0..<Suc R])"
    if c: "c < length sgs" for c
  proof -
    have a: "record_values buffer sgs1 (off + 2 * record_samples sgs + 2 * (r * record_samples sgs1)) c =
             record_values buffer sgs (off + 2 * (Suc r * record_samples sgs)) c" for r
      using record_values_cong[OF st c] by (simp add: rsm algebra_simps)
    have b: "[0..<Suc R] = 0 # map Suc [0..<R]"
      by (simp add: upt_conv_Cons map_Suc_upt del: upt_Suc)
    show ?thesis
      using v'[of c] v[OF c] c l unfolding b by (simp add: a comp_def)
  qed
  then show ?case using st st' by simp
qed

lemma concat_blocks:
  assumes "\<And>r. r < R \<Longrightarrow> length (f r) = n"
  shows "length (concat (map f [0..<R])) = n * R \<and>
         (\<forall>r<R. \<forall>s<n. concat (map f [0..<R]) ! (r * n + s) = f r ! s)"
  using assms
proof (induction R)
  case 0
  then show ?case by simp
next
  case (Suc R)
  then have len: "length (concat (map f [0..<R])) = n * R"
    and nth: "\<And>r s. r < R \<Longrightarrow> s < n \<Longrightarrow> concat (map f [0..<R]) ! (r * n + s) = f r ! s"
    and fR: "length (f R) = n"
    by auto
  have "concat (map f [0..<Suc R]) ! (r * n + s) = f r ! s" if r: "r < Suc R" and s: "s < n" for r s
  proof (cases "r < R")
    case True
    then have "r * n + s < n * R"
    proof -
      have "r * n + s < r * n + n" using s by simp
      also have "\<dots> = Suc r * n" by simp
      also have "\<dots> \<le> R * n" using True by (intro mult_le_mono1) simp
      finally show ?thesis by (simp add: mult.commute)
    qed
    then show ?thesis using nth[OF True s] by (simp add: nth_append len)
  next
    case False
    then have "r = R" using r by simp
    then show ?thesis by (simp add: nth_append len mult.commute)
  qed
  then show ?case using len fR by simp
qed

lemma parseSignalHeaders_fresh:
  assumes "parseSignalHeaders buffer h = Inr sgs" and "sg \<in> set sgs"
  shows "physicalValues sg = [] \<and>
         scaleFactor sg = jdiv (jsub (physicalMax sg) (physicalMin sg))
                               (jsub (jint (digitalMax sg)) (jint (digitalMin sg)))"
  using assms by (auto simp: parseSignalHeaders_def Let_def ebind_Inr)

lemma read_samples_bound:
  assumes "read_samples buffer sg (Some (int off)) k = Inr (vs, off')" and "0 < k"
  shows "off + 2 * k \<le> length buffer"
  using assms
proof (induction k arbitrary: off vs off')
  case 0
  then show ?case by simp
next
  case (Suc k)
  from Suc.prems obtain d vs1 where d: "getInt16 buffer (Some (int off)) = Inr d"
    and r: "read_samples buffer sg (Some (int (off + 2))) k = Inr (vs1, off')"
    by (auto simp: ebind_Inr add.commute)
  have b: "off + 2 \<le> length buffer" using getInt16_Some[OF d] by simp
  show ?case
  proof (cases k)
    case 0
    then show ?thesis using b by simp
  next
    case (Suc j)
    then have "off + 2 + 2 * k \<le> length buffer" using Suc.IH[OF r] by simp
    then show ?thesis by simp
  qed
qed

lemma read_signals_bound:
  assumes "read_signals buffer sgs (Some (int off)) = Inr (sgs', off')" and "0 < record_samples sgs"
  shows "off + 2 * record_samples sgs \<le> length buffer"
  using assms
proof (induction sgs arbitrary: off sgs' off')
  case Nil
  then show ?case by (simp add: record_samples_def)
next
  case (Cons sg sgs)
  from Cons.prems obtain vs o1 sgs1 where
    rs: "read_samples buffer sg (Some (int off)) (samples_count sg) = Inr (vs, o1)"
    and rr: "read_signals buffer sgs o1 = Inr (sgs1, off')"
    by (auto simp: ebind_Inr samples_count_def)
  from read_samples_values[OF rs] have o1: "o1 = Some (int (off + 2 * samples_count sg))"
    by auto
  have sum: "record_samples (sg # sgs) = samples_count sg + record_samples sgs"
    by (simp add: record_samples_def)
  show ?case
  proof (cases "0 < record_samples sgs")
    case True
    then show ?thesis using Cons.IH[OF rr[unfolded o1]] by (simp add: sum)
  next
    case False
    then have "0 < samples_count sg" using Cons.prems(2) by (simp add: sum)
    then show ?thesis using read_samples_bound[OF rs] False by (simp add: sum)
  qed
qed

lemma read_records_bound:
  assumes "read_records buffer sgs (Some (int off)) R = Inr (sgs', off')"
    and "0 < R" and "0 < record_samples sgs"
  shows "off + 2 * (R * record_samples sgs) \<le> length buffer"
  using assms
proof (induction R arbitrary: sgs off)
  case 0
  then show ?case by simp
next
  case (Suc R)
  from Suc.prems obtain sgs1 o1 where
    rs: "read_signals buffer sgs (Some (int off)) = Inr (sgs1, o1)"
    and rr: "read_records buffer sgs1 o1 R = Inr (sgs', off')"
    by (auto simp: ebind_Inr)
  from read_signals_values[OF rs] have o1: "o1 = Some (int (off + 2 * record_samples sgs))"
    by auto
  have rsm: "record_samples sgs1 = record_samples sgs"
    by (rule record_samples_cong[OF read_signals_strip[OF rs]])
  show ?case
  proof (cases R)
    case 0
    then show ?thesis using read_signals_bound[OF rs Suc.prems(3)] by simp
  next
    case (Suc j)
    then have "off + 2 * record_samples sgs + 2 * (R * record_samples sgs1) \<le> length buffer"
      using Suc.IH[OF rr[unfolded o1]] Suc.prems(3) rsm by simp
    then show ?thesis by (simp add: rsm algebra_simps)
  qed
qed

lemma record_samples_take:
  assumes "c < length sgs"
  shows "record_samples (take c sgs) + samples_count (sgs ! c) \<le> record_samples sgs"
proof -
  have "sgs = take c sgs @ sgs ! c # drop (Suc c) sgs"
    using assms by (rule id_take_nth_drop)
  then have "record_samples sgs =
             record_samples (take c sgs) + samples_count (sgs ! c) + record_samples (drop (Suc c) sgs)"
    unfolding record_samples_def by (metis (no_types) add.assoc list.simps(9) map_append sum_list.Cons sum_list.append)
  then show ?thesis by simp
qed

lemma strip_fields:
  assumes "strip a = strip b"
  shows "digitalMin a = digitalMin b \<and> digitalMax a = digitalMax b \<and>
         physicalMin a = physicalMin b \<and> physicalMax a = physicalMax b \<and>
         scaleFactor a = scaleFactor b \<and> numSamplesPerRecord a = numSamplesPerRecord b"
proof -
  have "digitalMin (strip a) = digitalMin (strip b)" "digitalMax (strip a) = digitalMax (strip b)"
    "physicalMin (strip a) = physicalMin (strip b)" "physicalMax (strip a) = physicalMax (strip b)"
    "scaleFactor (strip a) = scaleFactor (strip b)"
    "numSamplesPerRecord (strip a) = numSamplesPerRecord (strip b)"
    using assms by simp_all
  then show ?thesis by (simp add: strip_def)
qed

subsection \<open>Reading the example recording\<close>

lemma length_field: "length s \<le> n \<Longrightarrow> length (text_field n s) = n"
  by (simp add: text_field_def)

lemma length_fields: "fits fs \<Longrightarrow> length (text_fields fs) = sum_list (map fst fs)"
  by (induction fs) (auto simp: fits_def length_field)

lemma fields_split:
  assumes "fits fs" and "field_at fs off len = Some s"
  shows "\<exists>pre post. text_fields fs = pre @ text_field len s @ post \<and> length pre = off \<and> length s \<le> len"
  using assms
proof (induction fs arbitrary: off)
  case Nil
  then show ?case by simp
next
  case (Cons a fs)
  obtain n t where a: "a = (n, t)" by (cases a)
  have l: "length (text_field n t) = n" and t: "length t \<le> n" and f: "fits fs"
    using Cons.prems(1) by (auto simp: a fits_def length_field)
  show ?case
  proof (cases "off = 0")
    case True
    then have "n = len" "t = s" using Cons.prems(2) by (auto simp: a split: if_splits)
    then have "text_fields (a # fs) = [] @ text_field len s @ text_fields fs \<and> length ([] :: char list) = off \<and>
               length s \<le> len"
      using True t by (simp add: a)
    then show ?thesis by blast
  next
    case False
    then have n: "n \<le> off" and at: "field_at fs (off - n) len = Some s"
      using Cons.prems(2) by (auto simp: a split: if_splits)
    from Cons.IH[OF f at] obtain pre post where
      "text_fields fs = pre @ text_field len s @ post" "length pre = off - n" "length s \<le> len"
      by blast
    then have "text_fields (a # fs) = (text_field n t @ pre) @ text_field len s @ post \<and>
               length (text_field n t @ pre) = off \<and> length s \<le> len"
      using n l by (simp add: a)
    then show ?thesis by blast
  qed
qed

lemma dropWhile_replicate_ws:
  "dropWhile isWhiteSpace (replicate k CHR 0x20 @ xs) = dropWhile isWhiteSpace xs"
  by (induction k) (simp_all add: isWhiteSpace_def)

lemma dropWhile_hd: "xs \<noteq> [] \<Longrightarrow> \<not> P (hd xs) \<Longrightarrow> dropWhile P xs = xs"
  by (cases xs) simp_all

lemma trim_field:
  assumes "clean s"
  shows "trim (text_field n s) = s"
proof (cases "s = []")
  case True
  then show ?thesis
    using dropWhile_replicate_ws[of n "[]"] by (simp add: trim_def text_field_def)
next
  case False
  define pad where "pad = replicate (n - length s) CHR 0x20"
  have h: "\<not> isWhiteSpace (hd s)" and y: "\<not> isWhiteSpace (last s)"
    using assms False by (auto simp: clean_def)
  have 1: "dropWhile isWhiteSpace (s @ pad) = s @ pad"
    using False h by (intro dropWhile_hd) simp_all
  have "rev (s @ pad) = pad @ rev s" by (simp add: pad_def)
  then have 2: "dropWhile isWhiteSpace (rev (s @ pad)) = dropWhile isWhiteSpace (rev s)"
    using dropWhile_replicate_ws[of "n - length s" "rev s"] by (simp add: pad_def)
  have 3: "dropWhile isWhiteSpace (rev s) = rev s"
    using False y by (intro dropWhile_hd) (simp_all add: hd_rev)
  show ?thesis unfolding trim_def text_field_def pad_def[symmetric] 1 2 3 by simp
qed

lemma getStr_fields:
  assumes "fits fs" and "field_at fs off len = Some s" and "clean s"
  shows "getStr (text_fields fs @ rest) off len = Inr s"
proof -
  from fields_split[OF assms(1,2)] obtain pre post where
    f: "text_fields fs = pre @ text_field len s @ post" and p: "length pre = off" and s: "length s \<le> len"
    by blast
  have l: "length (text_field len s) = len" using s by (rule length_field)
  have "take len (drop off (text_fields fs @ rest)) = text_field len s"
    using p l by (simp add: f)
  moreover have "off + len \<le> length (text_fields fs @ rest)"
    using p l by (simp add: f)
  ultimately show ?thesis using trim_field[OF assms(3), of len] by (simp add: getStr_def)
qed

lemma getInt16_data:
  assumes "length (text_fields fs) = L" and "i + 2 \<le> length data"
  shows "getInt16 (text_fields fs @ data) (Some (int (L + i))) = Inr (int16_at data i)"
  using assms by (simp add: getInt16_def int16_at_def nth_append del: of_nat_add)

lemma fits_example: "fits (example_header @ example_channels)"
  by code_simp

lemma length_example_fields: "length (text_fields (example_header @ example_channels)) = 768"
  unfolding length_fields[OF fits_example] by code_simp

lemma example_getStr:
  "getStr example_edf 0 8 = Inr ''0''"
  "getStr example_edf 8 80 = Inr ''X''"
  "getStr example_edf 88 80 = Inr ''Startdate''"
  "getStr example_edf 168 8 = Inr ''02.03.21''"
  "getStr example_edf 176 8 = Inr ''04.05.06''"
  "getStr example_edf 184 8 = Inr ''768''"
  "getStr example_edf 192 44 = Inr []"
  "getStr example_edf 236 8 = Inr ''2''"
  "getStr example_edf 244 8 = Inr ''1''"
  "getStr example_edf 252 4 = Inr ''2''"
  unfolding example_edf_def
  by (rule getStr_fields[OF fits_example]; code_simp)+

lemma ebind_Inr_simp: "ebind (Inr x) f = f x"
  by (simp add: ebind_def)

lemma read_block_2:
  assumes "getStr buffer off width = Inr x" and "getStr buffer (off + width) width = Inr y"
  shows "read_block buffer off 2 width = Inr [x, y]"
  using assms by (simp add: read_block_def upt_rec ebind_Inr_simp)

lemma example_blocks:
  "read_block example_edf 256 2 16 = Inr [''Flow'', ''Press'']"
  "read_block example_edf 288 2 80 = Inr [[], []]"
  "read_block example_edf 448 2 8 = Inr [''L/s'', ''cmH2O'']"
  "read_block example_edf 464 2 8 = Inr [''-1'', ''0'']"
  "read_block example_edf 480 2 8 = Inr [''1'', ''32'']"
  "read_block example_edf 496 2 8 = Inr [''-128'', ''0'']"
  "read_block example_edf 512 2 8 = Inr [''128'', ''1024'']"
  "read_block example_edf 528 2 80 = Inr [[], []]"
  "read_block example_edf 688 2 8 = Inr [''2'', ''1'']"
  unfolding example_edf_def
  by (rule read_block_2; rule getStr_fields[OF fits_example]; code_simp)+

lemma example_numbers:
  "parseInt ''768'' = Some 768" "parseInt ''2'' = Some 2" "parseInt ''1'' = Some 1"
  "parseInt ''-128'' = Some (- 128)" "parseInt ''0'' = Some 0" "parseInt ''128'' = Some 128"
  "parseInt ''1024'' = Some 1024"
  "parseFloat ''1'' = Fin 1" "parseFloat ''-1'' = Fin (- 1)" "parseFloat ''0'' = Fin 0"
  "parseFloat ''32'' = Fin 32"
  by code_simp+

lemma example_date:
  "recording_date ''02.03.21'' ''04.05.06'' =
     Inr \<lparr>year = 2021, monthIndex = 2, day = 2, hours = 4, minutes = 5, seconds = 6\<rparr>"
  by code_simp

lemma parseHeader_example: "parseHeader example_edf = Inr example_metadata"
  unfolding parseHeader_def
  by (simp add: example_getStr ebind_Inr_simp example_numbers example_date example_metadata_def
      jint_def)

lemma parseSignalHeaders_example:
  "parseSignalHeaders example_edf example_metadata = Inr [flow_channel, press_channel]"
proof -
  have n: "loop_count (numSignals example_metadata) = 2"
    and d: "recordDurationSec example_metadata = Fin 1"
    by (simp_all add: example_metadata_def loop_count_def)
  show ?thesis
    unfolding parseSignalHeaders_def n d Let_def
    by (simp add: example_blocks ebind_Inr_simp example_numbers upt_rec jint_def jsub_def
        flow_channel_def press_channel_def)
qed

lemma example_int16:
  "getInt16 example_edf (Some 768) = Inr 64"
  "getInt16 example_edf (Some 770) = Inr (- 64)"
  "getInt16 example_edf (Some 772) = Inr 512"
  "getInt16 example_edf (Some 774) = Inr 128"
  "getInt16 example_edf (Some 776) = Inr 0"
  "getInt16 example_edf (Some 778) = Inr 256"
proof -
  have d: "int16_at example_data 0 = 64" "int16_at example_data 2 = - 64"
    "int16_at example_data 4 = 512" "int16_at example_data 6 = 128"
    "int16_at example_data 8 = 0" "int16_at example_data 10 = 256"
    by (simp_all add: int16_at_def example_data_def)
  have l: "length example_data = 12" by (simp add: example_data_def)
  note g = getInt16_data[OF length_example_fields, of _ example_data, folded example_edf_def]
  show "getInt16 example_edf (Some 768) = Inr 64" using g[of 0] by (simp add: l d)
  show "getInt16 example_edf (Some 770) = Inr (- 64)" using g[of 2] by (simp add: l d)
  show "getInt16 example_edf (Some 772) = Inr 512" using g[of 4] by (simp add: l d)
  show "getInt16 example_edf (Some 774) = Inr 128" using g[of 6] by (simp add: l d)
  show "getInt16 example_edf (Some 776) = Inr 0" using g[of 8] by (simp add: l d)
  show "getInt16 example_edf (Some 778) = Inr 256" using g[of 10] by (simp add: l d)
qed

lemma physVal_update [simp]: "physVal (sg\<lparr>physicalValues := vs\<rparr>) = physVal sg"
  by (rule ext) (simp add: physVal_def)

lemma example_physVal:
  "physVal flow_channel 64 = Fin (1 / 2)" "physVal flow_channel (- 64) = Fin (- 1 / 2)"
  "physVal flow_channel 128 = Fin 1" "physVal flow_channel 0 = Fin 0"
  "physVal press_channel 512 = Fin 16" "physVal press_channel 256 = Fin 8"
  by (simp_all add: physVal_def flow_channel_def press_channel_def jint_def jsub_def)

lemma read_records_example:
  "read_records example_edf [flow_channel, press_channel] (Some 768) 2 =
     Inr ([flow_channel\<lparr>physicalValues := [Fin (1 / 2), Fin (- 1 / 2), Fin 1, Fin 0]\<rparr>,
           press_channel\<lparr>physicalValues := [Fin 16, Fin 8]\<rparr>], Some 780)"
proof -
  have n: "loop_count (numSamplesPerRecord flow_channel) = Suc (Suc 0)"
    "loop_count (numSamplesPerRecord press_channel) = Suc 0"
    "physicalValues flow_channel = []" "physicalValues press_channel = []"
    by (simp_all add: flow_channel_def press_channel_def loop_count_def)
  have 2: "(2 :: nat) = Suc (Suc 0)" by simp
  show ?thesis
    unfolding 2
    by (simp add: n ebind_Inr_simp example_int16 example_physVal)
qed

lemma flow_label: "isFlowLabel (flow_channel\<lparr>physicalValues := vs\<rparr>)"
proof -
  have "includes_text (toLowerCase ''Flow'') ''flow''" by code_simp
  then show ?thesis by (simp add: isFlowLabel_def flow_channel_def)
qed

lemma parse_example: "parse example_edf = Inr example_recording"
proof -
  have h: "headerBytes example_metadata = Some 768"
    "loop_count (numDataRecords example_metadata) = 2"
    by (simp_all add: example_metadata_def loop_count_def)
  show ?thesis
    unfolding parse_def
    by (simp add: parseHeader_example parseSignalHeaders_example ebind_Inr_simp h
        read_records_example flow_label example_recording_def)
qed

lemma int16_data:
  assumes "length (text_fields fs) = L" and "i + 2 \<le> length data"
  shows "int16_at (text_fields fs @ data) (L + i) = int16_at data i"
  using assms by (simp add: int16_at_def nth_append)

subsection \<open>The decoded waveform\<close>

text \<open>
  Claim C1. Let \<open>parse\<close> return a recording whose \<open>headerBytes\<close> is the number
  \<open>H\<close>, and let \<open>c\<close> be one of its signals. Then the waveform of \<open>c\<close> has exactly
  samples-per-record times \<open>numDataRecords\<close> values (each count being the number of
  passes of its loop, which is the field itself when that is a natural number); its
  \<open>scaleFactor\<close> is \<open>(physicalMax - physicalMin) / (digitalMax - digitalMin)\<close>; and for
  every record \<open>r\<close> and every sample \<open>s\<close> of the signal in a record, the value at
  position \<open>r * samplesPerRecord + s\<close> is
  \<open>(d - digitalMin) * scaleFactor + physicalMin\<close>, where \<open>d\<close> is the signed
  little-endian 16-bit integer at \<open>sample_offset H signals c r s\<close>, two bytes that lie
  within the buffer.
\<close>

theorem decode_physical_values:
  assumes "parse buffer = Inr out"
    and "headerBytes (metadata out) = Some (int H)"
    and "c < length (signals out)"
  shows "length (physicalValues (signals out ! c)) =
           samples_count (signals out ! c) * loop_count (numDataRecords (metadata out)) \<and>
         scaleFactor (signals out ! c) =
           jdiv (jsub (physicalMax (signals out ! c)) (physicalMin (signals out ! c)))
                (jsub (jint (digitalMax (signals out ! c))) (jint (digitalMin (signals out ! c)))) \<and>
         (\<forall>r<loop_count (numDataRecords (metadata out)). \<forall>s<samples_count (signals out ! c).
            sample_offset H (signals out) c r s + 2 \<le> length buffer \<and>
            physicalValues (signals out ! c) ! (r * samples_count (signals out ! c) + s) =
              jadd (jmul (jsub (Fin (of_int (int16_at buffer (sample_offset H (signals out) c r s))))
                               (jint (digitalMin (signals out ! c))))
                         (scaleFactor (signals out ! c)))
                   (physicalMin (signals out ! c)))"
proof -
  from assms(1) obtain h sgs sgs' o' where
    sh: "parseSignalHeaders buffer h = Inr sgs"
    and rr: "read_records buffer sgs (headerBytes h) (loop_count (numDataRecords h)) = Inr (sgs', o')"
    and out: "out = \<lparr>metadata = h, signals = sgs', flowSignal = List.find isFlowLabel sgs'\<rparr>"
    by (auto simp: parse_def ebind_Inr)
  define R where "R = loop_count (numDataRecords h)"
  have hb: "headerBytes h = Some (int H)" using assms(2) out by simp
  note rr' = rr[unfolded hb, folded R_def]
  from read_records_values[OF rr']
  have st: "map strip sgs' = map strip sgs"
    and pv: "\<And>c. c < length sgs \<Longrightarrow> physicalValues (sgs' ! c) = physicalValues (sgs ! c) @
            concat (map (\<lambda>r. record_values buffer sgs (H + 2 * (r * record_samples sgs)) c) [0..<R])"
    by auto
  have l: "length sgs' = length sgs" using st by (metis length_map)
  have c: "c < length sgs" using assms(3) out l by simp
  have "strip (sgs' ! c) = strip (sgs ! c)" using st c l by (metis nth_map)
  note f = strip_fields[OF this]
  have mem: "sgs ! c \<in> set sgs" using c by simp
  note fresh = parseSignalHeaders_fresh[OF sh mem]
  define n where "n = samples_count (sgs ! c)"
  have n': "samples_count (sgs' ! c) = n" using f by (simp add: samples_count_def n_def)
  have rs: "record_samples sgs' = record_samples sgs" by (rule record_samples_cong[OF st])
  have rt: "record_samples (take c sgs') = record_samples (take c sgs)"
    using st by (intro record_samples_cong) (simp add: take_map[symmetric])
  define f where "f = (\<lambda>r. record_values buffer sgs (H + 2 * (r * record_samples sgs)) c)"
  have lenf: "length (f r) = n" for r by (simp add: f_def record_values_def n_def)
  from concat_blocks[of R f n, OF lenf]
  have len: "length (concat (map f [0..<R])) = n * R"
    and nth: "\<And>r s. r < R \<Longrightarrow> s < n \<Longrightarrow> concat (map f [0..<R]) ! (r * n + s) = f r ! s"
    by auto
  have val: "physicalValues (sgs' ! c) = concat (map f [0..<R])"
    using pv[OF c] fresh by (simp add: f_def)
  have p1: "length (physicalValues (sgs' ! c)) = n * R" by (simp add: val len)
  have p2: "scaleFactor (sgs' ! c) =
           jdiv (jsub (physicalMax (sgs' ! c)) (physicalMin (sgs' ! c)))
                (jsub (jint (digitalMax (sgs' ! c))) (jint (digitalMin (sgs' ! c))))"
    using fresh \<open>strip (sgs' ! c) = strip (sgs ! c)\<close> strip_fields by metis
  have p3: "sample_offset H sgs' c r s + 2 \<le> length buffer \<and>
            physicalValues (sgs' ! c) ! (r * n + s) =
              jadd (jmul (jsub (Fin (of_int (int16_at buffer (sample_offset H sgs' c r s))))
                               (jint (digitalMin (sgs' ! c))))
                         (scaleFactor (sgs' ! c)))
                   (physicalMin (sgs' ! c))" if r: "r < R" and s: "s < n" for r s
  proof -
    have so: "sample_offset H sgs' c r s =
              H + 2 * (r * record_samples sgs) + 2 * (record_samples (take c sgs) + s)"
      by (simp add: sample_offset_def rs rt algebra_simps)
    have "f r ! s = physVal (sgs ! c) (int16_at buffer (sample_offset H sgs' c r s))"
      using s by (simp add: f_def record_values_def n_def so)
    also have "\<dots> = physVal (sgs' ! c) (int16_at buffer (sample_offset H sgs' c r s))"
      using \<open>strip (sgs' ! c) = strip (sgs ! c)\<close> by (metis physVal_strip)
    finally have v: "physicalValues (sgs' ! c) ! (r * n + s) =
                     physVal (sgs' ! c) (int16_at buffer (sample_offset H sgs' c r s))"
      using nth[OF r s] by (simp add: val)
    have pos: "0 < record_samples sgs"
      using record_samples_take[OF c] s by (simp add: n_def)
    have "0 < R" using r by simp
    from read_records_bound[OF rr' this pos]
    have b: "H + 2 * (R * record_samples sgs) \<le> length buffer" .
    have "record_samples (take c sgs) + s + 1 \<le> record_samples sgs"
      using record_samples_take[OF c] s by (simp add: n_def)
    then have "r * record_samples sgs + (record_samples (take c sgs) + s + 1)
               \<le> r * record_samples sgs + record_samples sgs" by simp
    also have "\<dots> = Suc r * record_samples sgs" by simp
    also have "\<dots> \<le> R * record_samples sgs" using r by (intro mult_le_mono1) simp
    finally have "sample_offset H sgs' c r s + 2 \<le> H + 2 * (R * record_samples sgs)"
      unfolding so by simp
    then show ?thesis using b v by (simp add: physVal_def)
  qed
  show ?thesis using p1 p2 p3 by (simp add: out n' R_def)
qed

text \<open>
  The example recording: the pressure signal has two values, and its value in the second
  record is decoded from the integer 256 at byte 778.
\<close>

theorem decode_physical_values_witness:
  "parse example_edf = Inr example_recording \<and>
   headerBytes (metadata example_recording) = Some (int 768) \<and>
   1 < length (signals example_recording) \<and>
   length (physicalValues (signals example_recording ! 1)) = 1 * 2 \<and>
   scaleFactor (signals example_recording ! 1) = Fin (1 / 32) \<and>
   sample_offset 768 (signals example_recording) 1 1 0 = 778 \<and>
   778 + 2 \<le> length example_edf \<and>
   int16_at example_edf 778 = 256 \<and>
   physicalValues (signals example_recording ! 1) ! (1 * 1 + 0) = Fin 8"
proof -
  let ?sg = "signals example_recording ! 1"
  have h: "headerBytes (metadata example_recording) = Some (int 768)"
    by (simp add: example_recording_def example_metadata_def)
  have c: "1 < length (signals example_recording)"
    by (simp add: example_recording_def)
  have R: "loop_count (numDataRecords (metadata example_recording)) = 2"
    by (simp add: example_recording_def example_metadata_def loop_count_def)
  have n: "samples_count ?sg = 1"
    by (simp add: example_recording_def press_channel_def samples_count_def loop_count_def)
  have so: "sample_offset 768 (signals example_recording) 1 1 0 = 778"
    by (simp add: sample_offset_def record_samples_def samples_count_def loop_count_def
        example_recording_def press_channel_def flow_channel_def)
  have d: "int16_at example_edf 778 = 256"
    using int16_data[OF length_example_fields, of 10 example_data]
    by (simp add: example_edf_def int16_at_def example_data_def)
  have f: "digitalMin ?sg = Some 0" "digitalMax ?sg = Some 1024" "physicalMin ?sg = Fin 0"
    "physicalMax ?sg = Fin 32"
    by (simp_all add: example_recording_def press_channel_def)
  note t = decode_physical_values[OF parse_example h c, unfolded R n]
  have len: "length (physicalValues ?sg) = 1 * 2" by (rule t[THEN conjunct1])
  have sf: "scaleFactor ?sg = Fin (1 / 32)"
    unfolding t[THEN conjunct2, THEN conjunct1] f by (simp add: jint_def jsub_def)
  have "sample_offset 768 (signals example_recording) 1 1 0 + 2 \<le> length example_edf \<and>
      physicalValues ?sg ! (1 * 1 + 0) =
        jadd (jmul (jsub (Fin (of_int (int16_at example_edf
                 (sample_offset 768 (signals example_recording) 1 1 0))))
                         (jint (digitalMin ?sg))) (scaleFactor ?sg)) (physicalMin ?sg)"
    by (rule t[THEN conjunct2, THEN conjunct2, rule_format]) simp_all
  then have "778 + 2 \<le> length example_edf \<and> physicalValues ?sg ! (1 * 1 + 0) = Fin 8"
    unfolding so d sf f by (simp add: jint_def jsub_def)
  then show ?thesis using parse_example h c len sf so d by blast
qed

section \<open>Verification: what makes decoding fail\<close>

subsection \<open>The failures of \<open>parse\<close>\<close>

lemma ebind_Inl: "ebind m f = Inl e \<longleftrightarrow> m = Inl e \<or> (\<exists>x. m = Inr x \<and> f x = Inl e)"
  by (cases m) (auto simp: ebind_def)

lemma error_cases: "m \<noteq> Inl RangeError \<Longrightarrow> (\<And>e. m = Inl e \<Longrightarrow> e = RangeError) \<Longrightarrow> \<exists>x. m = Inr x"
  by (cases m) auto

lemma getStr_error: "getStr buffer off len = Inl e \<Longrightarrow> e = RangeError"
  by (simp add: getStr_def split: if_splits)

lemma getStr_Inr: "getStr buffer off len = Inr x \<Longrightarrow> off + len \<le> length buffer"
  by (simp add: getStr_def split: if_splits)

lemma recording_date_error: "recording_date d t = Inl e \<Longrightarrow> e = RangeError"
  by (simp add: recording_date_def Let_def split: option.splits)

lemma recording_date_fails:
  assumes "k < 3" and "part_int (split_on CHR ''.'' d) k = None"
  shows "recording_date d t = Inl RangeError"
proof -
  have "k = 0 \<or> k = 1 \<or> k = 2" using assms(1) by auto
  then show ?thesis using assms(2)
    by (auto simp: recording_date_def Let_def split: option.splits)
qed

lemma parseHeader_error: "parseHeader buffer = Inl e \<Longrightarrow> e = RangeError"
  unfolding parseHeader_def
  by (auto simp: ebind_Inl dest: getStr_error recording_date_error)

lemma parseHeader_length: "parseHeader buffer = Inr h \<Longrightarrow> 256 \<le> length buffer"
  unfolding parseHeader_def
  by (auto simp: ebind_Inr dest!: getStr_Inr)

lemma read_fields_error: "read_fields buffer off width is = Inl e \<Longrightarrow> e = RangeError"
  by (induction "is") (auto simp: ebind_Inl dest: getStr_error)

lemma read_fields_bound:
  "read_fields buffer off width is = Inr xs \<Longrightarrow> i \<in> set is \<Longrightarrow>
   off + i * width + width \<le> length buffer"
  by (induction "is" arbitrary: xs) (auto simp: ebind_Inr dest: getStr_Inr)

lemma read_block_error: "read_block buffer off n width = Inl e \<Longrightarrow> e = RangeError"
  unfolding read_block_def by (rule read_fields_error)

lemma read_block_bound:
  assumes "read_block buffer off n width = Inr xs" and "0 < n"
  shows "off + n * width \<le> length buffer"
proof -
  have "n - 1 \<in> set [0..<n]" using assms(2) by simp
  from read_fields_bound[OF assms(1)[unfolded read_block_def] this]
  have "off + (n - 1) * width + width \<le> length buffer" .
  moreover have "(n - 1) * width + width = n * width"
    using assms(2) by (cases n) simp_all
  ultimately show ?thesis by simp
qed

lemma parseSignalHeaders_error: "parseSignalHeaders buffer h = Inl e \<Longrightarrow> e = RangeError"
  unfolding parseSignalHeaders_def Let_def
  by (auto simp: ebind_Inl dest: read_block_error)

lemma parseSignalHeaders_length:
  assumes "parseSignalHeaders buffer h = Inr sgs" and "0 < loop_count (numSignals h)"
  shows "256 + 224 * loop_count (numSignals h) \<le> length buffer"
proof -
  define n where "n = loop_count (numSignals h)"
  from assms(1) obtain xs where
    "read_block buffer (256 + n * 16 + n * 80 + n * 8 + n * 8 + n * 8 + n * 8 + n * 8 + n * 80) n 8 = Inr xs"
    unfolding parseSignalHeaders_def Let_def n_def[symmetric] by (auto simp: ebind_Inr)
  from read_block_bound[OF this] assms(2) show ?thesis by (simp add: n_def)
qed

lemma getInt16_error: "getInt16 buffer off = Inl e \<Longrightarrow> e = RangeError"
  by (simp add: getInt16_def split: option.splits if_splits)

lemma read_samples_error: "read_samples buffer sg off k = Inl e \<Longrightarrow> e = RangeError"
  by (induction k arbitrary: off) (auto simp: ebind_Inl dest: getInt16_error)

lemma read_signals_error: "read_signals buffer sgs off = Inl e \<Longrightarrow> e = RangeError"
  by (induction sgs arbitrary: off) (auto simp: ebind_Inl dest: read_samples_error)

lemma read_records_error: "read_records buffer sgs off R = Inl e \<Longrightarrow> e = RangeError"
  by (induction R arbitrary: sgs off) (auto simp: ebind_Inl dest: read_signals_error)

lemma parse_error: "parse buffer = Inl e \<Longrightarrow> e = RangeError"
  unfolding parse_def
  by (auto simp: ebind_Inl dest: parseHeader_error parseSignalHeaders_error read_records_error)

lemma parse_short:
  assumes "length buffer < 256"
  shows "parse buffer = Inl RangeError"
proof -
  have "parseHeader buffer = Inl RangeError"
  proof (rule ccontr)
    assume "parseHeader buffer \<noteq> Inl RangeError"
    then obtain h where "parseHeader buffer = Inr h"
      using error_cases parseHeader_error by blast
    from parseHeader_length[OF this] assms show False by simp
  qed
  then show ?thesis by (simp add: parse_def ebind_def)
qed

lemma parse_short_channels:
  assumes "parseHeader buffer = Inr h" and "0 < loop_count (numSignals h)"
    and "length buffer < 256 + 224 * loop_count (numSignals h)"
  shows "parse buffer = Inl RangeError"
proof -
  have "parseSignalHeaders buffer h = Inl RangeError"
  proof (rule ccontr)
    assume "parseSignalHeaders buffer h \<noteq> Inl RangeError"
    then obtain sgs where "parseSignalHeaders buffer h = Inr sgs"
      using error_cases parseSignalHeaders_error by blast
    from parseSignalHeaders_length[OF this assms(2)] assms(3) show False by simp
  qed
  then show ?thesis by (simp add: parse_def ebind_def assms(1))
qed

lemma parse_date:
  assumes "256 \<le> length buffer" and "k < 3"
    and "part_int (split_on CHR ''.'' (trim (take 8 (drop 168 buffer)))) k = None"
  shows "parse buffer = Inl RangeError"
proof -
  have g: "getStr buffer off len = Inr (trim (take len (drop off buffer)))"
    if "off + len \<le> 256" for off len
    using that assms(1) by (simp add: getStr_def)
  have "parseHeader buffer = Inl RangeError"
    unfolding parseHeader_def
    by (simp add: g ebind_Inr_simp recording_date_fails[OF assms(2,3)] ebind_def)
  then show ?thesis by (simp add: parse_def ebind_def)
qed

lemma read_samples_any:
  "read_samples buffer sg off k = Inr (vs, off') \<Longrightarrow> \<forall>v\<in>set vs. \<exists>d. v = physVal sg d"
proof (induction k arbitrary: off vs)
  case 0
  then show ?case by simp
next
  case (Suc k)
  from Suc.prems obtain d vs1 where
    r: "read_samples buffer sg (map_option (\<lambda>off. off + 2) off) k = Inr (vs1, off')"
    and v: "vs = physVal sg d # vs1"
    by (auto simp: ebind_Inr)
  from Suc.IH[OF r] show ?case by (auto simp: v)
qed

lemma read_signals_any:
  "read_signals buffer sgs off = Inr (sgs', off') \<Longrightarrow>
   length sgs' = length sgs \<and>
   (\<forall>c<length sgs. strip (sgs' ! c) = strip (sgs ! c) \<and>
      (\<forall>v\<in>set (physicalValues (sgs' ! c)).
         v \<in> set (physicalValues (sgs ! c)) \<or> (\<exists>d. v = physVal (sgs ! c) d)))"
proof (induction sgs arbitrary: off sgs')
  case Nil
  then show ?case by simp
next
  case (Cons sg sgs)
  from Cons.prems obtain vs o1 sgs1 where
    rs: "read_samples buffer sg off (loop_count (numSamplesPerRecord sg)) = Inr (vs, o1)"
    and rr: "read_signals buffer sgs o1 = Inr (sgs1, off')"
    and s': "sgs' = sg\<lparr>physicalValues := physicalValues sg @ vs\<rparr> # sgs1"
    by (auto simp: ebind_Inr)
  note vs = read_samples_any[OF rs]
  from Cons.IH[OF rr] have l: "length sgs1 = length sgs"
    and v: "\<And>c. c < length sgs \<Longrightarrow> strip (sgs1 ! c) = strip (sgs ! c) \<and>
      (\<forall>v\<in>set (physicalValues (sgs1 ! c)).
         v \<in> set (physicalValues (sgs ! c)) \<or> (\<exists>d. v = physVal (sgs ! c) d))"
    by auto
  have "strip (sgs' ! c) = strip ((sg # sgs) ! c) \<and>
      (\<forall>v\<in>set (physicalValues (sgs' ! c)).
         v \<in> set (physicalValues ((sg # sgs) ! c)) \<or> (\<exists>d. v = physVal ((sg # sgs) ! c) d))"
    if "c < length (sg # sgs)" for c
  proof (cases c)
    case 0
    then show ?thesis using vs by (auto simp: s')
  next
    case (Suc c')
    then show ?thesis using that v[of c'] by (simp add: s')
  qed
  then show ?case using l by (simp add: s')
qed

lemma read_records_any:
  "read_records buffer sgs off R = Inr (sgs', off') \<Longrightarrow>
   length sgs' = length sgs \<and>
   (\<forall>c<length sgs. strip (sgs' ! c) = strip (sgs ! c) \<and>
      (\<forall>v\<in>set (physicalValues (sgs' ! c)).
         v \<in> set (physicalValues (sgs ! c)) \<or> (\<exists>d. v = physVal (sgs ! c) d)))"
proof (induction R arbitrary: sgs off)
  case 0
  then show ?case by simp
next
  case (Suc R)
  from Suc.prems obtain sgs1 o1 where
    rs: "read_signals buffer sgs off = Inr (sgs1, o1)"
    and rr: "read_records buffer sgs1 o1 R = Inr (sgs', off')"
    by (auto simp: ebind_Inr)
  from read_signals_any[OF rs] have l1: "length sgs1 = length sgs"
    and v1: "\<And>c. c < length sgs \<Longrightarrow> strip (sgs1 ! c) = strip (sgs ! c) \<and>
      (\<forall>v\<in>set (physicalValues (sgs1 ! c)).
         v \<in> set (physicalValues (sgs ! c)) \<or> (\<exists>d. v = physVal (sgs ! c) d))"
    by auto
  from Suc.IH[OF rr] have l2: "length sgs' = length sgs1"
    and v2: "\<And>c. c < length sgs1 \<Longrightarrow> strip (sgs' ! c) = strip (sgs1 ! c) \<and>
      (\<forall>v\<in>set (physicalValues (sgs' ! c)).
         v \<in> set (physicalValues (sgs1 ! c)) \<or> (\<exists>d. v = physVal (sgs1 ! c) d))"
    by auto
  have "strip (sgs' ! c) = strip (sgs ! c) \<and>
      (\<forall>v\<in>set (physicalValues (sgs' ! c)).
         v \<in> set (physicalValues (sgs ! c)) \<or> (\<exists>d. v = physVal (sgs ! c) d))"
    if c: "c < length sgs" for c
  proof -
    have c1: "c < length sgs1" using c l1 by simp
    have st: "strip (sgs1 ! c) = strip (sgs ! c)" using v1[OF c] by simp
    then have p: "physVal (sgs1 ! c) = physVal (sgs ! c)" by (metis physVal_strip)
    show ?thesis using v1[OF c] v2[OF c1] unfolding p by auto
  qed
  then show ?case using l1 l2 by simp
qed

lemma zero_range_scale:
  "jdiv x (jsub (Fin a) (Fin a)) = NaN \<or> jdiv x (jsub (Fin a) (Fin a)) = PosInf \<or>
   jdiv x (jsub (Fin a) (Fin a)) = NegInf"
  by (cases x) (simp_all add: jsub_def inf_signed_def)

lemma non_finite_value:
  assumes "sf = NaN \<or> sf = PosInf \<or> sf = NegInf"
  shows "jadd (jmul (jsub (Fin a) (Fin b)) sf) p \<noteq> Fin x"
proof -
  have "jmul (jsub (Fin a) (Fin b)) sf = NaN \<or> jmul (jsub (Fin a) (Fin b)) sf = PosInf \<or>
        jmul (jsub (Fin a) (Fin b)) sf = NegInf"
    using assms by (auto simp: jsub_def inf_signed_def split: if_splits)
  then show ?thesis by (cases p) auto
qed

lemma zero_range_decoded:
  assumes "parse buffer = Inr out" and "sg \<in> set (signals out)"
    and "digitalMin sg = Some d" and "digitalMax sg = Some d"
  shows "(scaleFactor sg = NaN \<or> scaleFactor sg = PosInf \<or> scaleFactor sg = NegInf) \<and>
         (\<forall>x. Fin x \<notin> set (physicalValues sg))"
proof -
  from assms(1) obtain h sgs sgs' o' where
    sh: "parseSignalHeaders buffer h = Inr sgs"
    and rr: "read_records buffer sgs (headerBytes h) (loop_count (numDataRecords h)) = Inr (sgs', o')"
    and out: "out = \<lparr>metadata = h, signals = sgs', flowSignal = List.find isFlowLabel sgs'\<rparr>"
    by (auto simp: parse_def ebind_Inr)
  from assms(2) obtain c where c': "c < length sgs'" and sg: "sg = sgs' ! c"
    by (auto simp: out in_set_conv_nth)
  from read_records_any[OF rr] c' have c: "c < length sgs"
    and st: "strip sg = strip (sgs ! c)"
    and vals: "\<And>v. v \<in> set (physicalValues sg) \<Longrightarrow>
         v \<in> set (physicalValues (sgs ! c)) \<or> (\<exists>d. v = physVal (sgs ! c) d)"
    by (auto simp: sg)
  note f = strip_fields[OF st]
  have mem: "sgs ! c \<in> set sgs" using c by simp
  note fresh = parseSignalHeaders_fresh[OF sh mem]
  have dm: "digitalMin (sgs ! c) = Some d" "digitalMax (sgs ! c) = Some d"
    using f assms(3,4) by metis+
  have "scaleFactor sg = scaleFactor (sgs ! c)" using f by simp
  also have "\<dots> = jdiv (jsub (physicalMax (sgs ! c)) (physicalMin (sgs ! c)))
                       (jsub (jint (digitalMax (sgs ! c))) (jint (digitalMin (sgs ! c))))"
    using fresh by simp
  also have "\<dots> = jdiv (jsub (physicalMax (sgs ! c)) (physicalMin (sgs ! c)))
                       (jsub (Fin (of_int d)) (Fin (of_int d)))"
    unfolding dm by (simp add: jint_def)
  finally have sf: "scaleFactor sg = jdiv (jsub (physicalMax (sgs ! c)) (physicalMin (sgs ! c)))
                       (jsub (Fin (of_int d)) (Fin (of_int d)))" .
  have nf: "scaleFactor sg = NaN \<or> scaleFactor sg = PosInf \<or> scaleFactor sg = NegInf"
    unfolding sf by (rule zero_range_scale)
  have "Fin x \<notin> set (physicalValues sg)" for x
  proof
    assume "Fin x \<in> set (physicalValues sg)"
    from vals[OF this] fresh obtain d' where "Fin x = physVal (sgs ! c) d'" by auto
    also have "\<dots> = physVal sg d'" using st by (metis physVal_strip)
    finally have "jadd (jmul (jsub (Fin (of_int d')) (Fin (of_int d))) (scaleFactor sg))
                       (physicalMin sg) = Fin x"
      by (simp add: physVal_def assms(3) jint_def)
    then show False using non_finite_value[OF nf] by blast
  qed
  then show ?thesis using nf by blast
qed

lemma parseHeader_numSignals:
  "parseHeader buffer = Inr h \<Longrightarrow> numSignals h = parseInt (trim (take 4 (drop 252 buffer)))"
  unfolding parseHeader_def
  by (auto simp: ebind_Inr getStr_def split: if_splits)

subsection \<open>Reading the recordings that are not rejected\<close>

lemma getStr_fields_only:
  assumes "fits fs" and "field_at fs off len = Some s" and "clean s"
  shows "getStr (text_fields fs) off len = Inr s"
  using getStr_fields[OF assms, of "[]"] by simp

lemma read_block_1:
  assumes "getStr buffer off width = Inr x"
  shows "read_block buffer off (Suc 0) width = Inr [x]"
  using assms by (simp add: read_block_def ebind_Inr_simp)

lemma more_numbers:
  "parseInt ''512'' = Some 512" "parseInt ''5'' = Some 5" "parseInt [] = None"
  "parseFloat [] = NaN"
  by code_simp+

lemma fits_zero_range: "fits (zero_range_header @ zero_range_channel)"
  by code_simp

lemma length_zero_range_fields:
  "length (text_fields (zero_range_header @ zero_range_channel)) = 512"
  unfolding length_fields[OF fits_zero_range] by code_simp

lemma zero_range_getStr:
  "getStr zero_range_edf 0 8 = Inr ''0''"
  "getStr zero_range_edf 8 80 = Inr ''X''"
  "getStr zero_range_edf 88 80 = Inr ''Startdate''"
  "getStr zero_range_edf 168 8 = Inr ''02.03.21''"
  "getStr zero_range_edf 176 8 = Inr ''04.05.06''"
  "getStr zero_range_edf 184 8 = Inr ''512''"
  "getStr zero_range_edf 192 44 = Inr []"
  "getStr zero_range_edf 236 8 = Inr ''1''"
  "getStr zero_range_edf 244 8 = Inr ''1''"
  "getStr zero_range_edf 252 4 = Inr ''1''"
  unfolding zero_range_edf_def
  by (rule getStr_fields[OF fits_zero_range]; code_simp)+

lemma zero_range_blocks:
  "read_block zero_range_edf 256 (Suc 0) 16 = Inr [''Flow'']"
  "read_block zero_range_edf 272 (Suc 0) 80 = Inr [[]]"
  "read_block zero_range_edf 352 (Suc 0) 8 = Inr [''L/s'']"
  "read_block zero_range_edf 360 (Suc 0) 8 = Inr [''-1'']"
  "read_block zero_range_edf 368 (Suc 0) 8 = Inr [''1'']"
  "read_block zero_range_edf 376 (Suc 0) 8 = Inr [''5'']"
  "read_block zero_range_edf 384 (Suc 0) 8 = Inr [''5'']"
  "read_block zero_range_edf 392 (Suc 0) 80 = Inr [[]]"
  "read_block zero_range_edf 472 (Suc 0) 8 = Inr [''2'']"
  unfolding zero_range_edf_def
  by (rule read_block_1; rule getStr_fields[OF fits_zero_range]; code_simp)+

lemma parseHeader_zero_range: "parseHeader zero_range_edf = Inr zero_range_metadata"
  unfolding parseHeader_def
  by (simp add: zero_range_getStr ebind_Inr_simp example_numbers more_numbers example_date
      zero_range_metadata_def jint_def)

lemma parseSignalHeaders_zero_range:
  "parseSignalHeaders zero_range_edf zero_range_metadata = Inr [zero_range_channel_header]"
proof -
  have n: "loop_count (numSignals zero_range_metadata) = Suc 0"
    and d: "recordDurationSec zero_range_metadata = Fin 1"
    by (simp_all add: zero_range_metadata_def loop_count_def)
  show ?thesis
    unfolding parseSignalHeaders_def n d Let_def
    by (simp add: zero_range_blocks ebind_Inr_simp example_numbers more_numbers jint_def jsub_def
        zero_range_channel_header_def inf_signed_def)
qed

lemma zero_range_int16:
  "getInt16 zero_range_edf (Some 512) = Inr 7"
  "getInt16 zero_range_edf (Some 514) = Inr 5"
proof -
  have d: "int16_at zero_range_data 0 = 7" "int16_at zero_range_data 2 = 5"
    by (simp_all add: int16_at_def zero_range_data_def)
  have l: "length zero_range_data = 4" by (simp add: zero_range_data_def)
  note g = getInt16_data[OF length_zero_range_fields, of _ zero_range_data, folded zero_range_edf_def]
  show "getInt16 zero_range_edf (Some 512) = Inr 7" using g[of 0] by (simp add: l d)
  show "getInt16 zero_range_edf (Some 514) = Inr 5" using g[of 2] by (simp add: l d)
qed

lemma zero_range_physVal:
  "physVal zero_range_channel_header 7 = PosInf" "physVal zero_range_channel_header 5 = NaN"
  by (simp_all add: physVal_def zero_range_channel_header_def jint_def jsub_def inf_signed_def)

lemma read_records_zero_range:
  "read_records zero_range_edf [zero_range_channel_header] (Some 512) (Suc 0) =
     Inr ([zero_range_channel_header\<lparr>physicalValues := [PosInf, NaN]\<rparr>], Some 516)"
proof -
  have n: "loop_count (numSamplesPerRecord zero_range_channel_header) = Suc (Suc 0)"
    "physicalValues zero_range_channel_header = []"
    by (simp_all add: zero_range_channel_header_def loop_count_def)
  show ?thesis
    by (simp add: n ebind_Inr_simp zero_range_int16 zero_range_physVal)
qed

lemma flow_text: "includes_text (toLowerCase ''Flow'') ''flow''"
  by code_simp

lemma parse_zero_range_edf: "parse zero_range_edf = Inr zero_range_recording"
proof -
  have h: "headerBytes zero_range_metadata = Some 512"
    "loop_count (numDataRecords zero_range_metadata) = Suc 0"
    by (simp_all add: zero_range_metadata_def loop_count_def)
  have f: "isFlowLabel (zero_range_channel_header\<lparr>physicalValues := vs\<rparr>)" for vs
    using flow_text by (simp add: isFlowLabel_def zero_range_channel_header_def)
  show ?thesis
    unfolding parse_def
    by (simp add: parseHeader_zero_range parseSignalHeaders_zero_range ebind_Inr_simp h
        read_records_zero_range f zero_range_recording_def del: read_records.simps)
qed

lemma fits_sparse: "fits (sparse_header @ sparse_channel)"
  by code_simp

lemma length_sparse_edf: "length sparse_edf = 480"
  unfolding sparse_edf_def length_fields[OF fits_sparse] by code_simp

lemma sparse_getStr:
  "getStr sparse_edf 0 8 = Inr ''0''"
  "getStr sparse_edf 8 80 = Inr ''X''"
  "getStr sparse_edf 88 80 = Inr ''Startdate''"
  "getStr sparse_edf 168 8 = Inr ''02.03.21''"
  "getStr sparse_edf 176 8 = Inr ''04.05.06''"
  "getStr sparse_edf 184 8 = Inr []"
  "getStr sparse_edf 192 44 = Inr []"
  "getStr sparse_edf 236 8 = Inr []"
  "getStr sparse_edf 244 8 = Inr []"
  "getStr sparse_edf 252 4 = Inr ''1''"
  unfolding sparse_edf_def
  by (rule getStr_fields_only[OF fits_sparse]; code_simp)+

lemma sparse_blocks:
  "read_block sparse_edf 256 (Suc 0) 16 = Inr [''Flow'']"
  "read_block sparse_edf 272 (Suc 0) 80 = Inr [[]]"
  "read_block sparse_edf 352 (Suc 0) 8 = Inr [''L/s'']"
  "read_block sparse_edf 360 (Suc 0) 8 = Inr [''-1'']"
  "read_block sparse_edf 368 (Suc 0) 8 = Inr [''1'']"
  "read_block sparse_edf 376 (Suc 0) 8 = Inr [''-128'']"
  "read_block sparse_edf 384 (Suc 0) 8 = Inr [''128'']"
  "read_block sparse_edf 392 (Suc 0) 80 = Inr [[]]"
  "read_block sparse_edf 472 (Suc 0) 8 = Inr [''2'']"
  unfolding sparse_edf_def
  by (rule read_block_1; rule getStr_fields_only[OF fits_sparse]; code_simp)+

lemma parseHeader_sparse: "parseHeader sparse_edf = Inr sparse_metadata"
  unfolding parseHeader_def
  by (simp add: sparse_getStr ebind_Inr_simp example_numbers more_numbers example_date
      sparse_metadata_def jint_def)

lemma parseSignalHeaders_sparse:
  "parseSignalHeaders sparse_edf sparse_metadata = Inr [sparse_channel_header]"
proof -
  have n: "loop_count (numSignals sparse_metadata) = Suc 0"
    and d: "recordDurationSec sparse_metadata = NaN"
    by (simp_all add: sparse_metadata_def loop_count_def)
  show ?thesis
    unfolding parseSignalHeaders_def n d Let_def
    by (simp add: sparse_blocks ebind_Inr_simp example_numbers more_numbers jint_def jsub_def
        sparse_channel_header_def)
qed

lemma parse_sparse: "parse sparse_edf = Inr sparse_recording"
proof -
  have h: "headerBytes sparse_metadata = None"
    "loop_count (numDataRecords sparse_metadata) = 0"
    by (simp_all add: sparse_metadata_def loop_count_def)
  have f: "isFlowLabel sparse_channel_header"
    using flow_text by (simp add: isFlowLabel_def sparse_channel_header_def)
  show ?thesis
    unfolding parse_def
    by (simp add: parseHeader_sparse parseSignalHeaders_sparse ebind_Inr_simp h
        f sparse_recording_def)
qed

lemma fits_sparse_header: "fits sparse_header"
  by code_simp

lemma length_sparse_header: "length (text_fields sparse_header) = 256"
  unfolding length_fields[OF fits_sparse_header] by code_simp

lemma sparse_header_numSignals:
  "trim (take 4 (drop 252 (text_fields sparse_header))) = ''1''"
proof -
  have "getStr (text_fields sparse_header) 252 4 = Inr ''1''"
    by (rule getStr_fields_only[OF fits_sparse_header]; code_simp)
  then show ?thesis by (simp add: getStr_def length_sparse_header)
qed

lemma blank_header_date: "trim (take 8 (drop 168 blank_header)) = []"
  using dropWhile_replicate_ws[of 8 "[]"] by (simp add: blank_header_def trim_def)

subsection \<open>Failure and the zero digital range\<close>

text \<open>
  Claim C2, as stated, fails. A buffer in which the only channel has \<open>digitalMax\<close> equal
  to \<open>digitalMin\<close> is decoded: \<open>parse\<close> returns a recording whose waveform is
  \<open>Infinity\<close> and \<open>NaN\<close>. And a buffer of 480 bytes whose header declares one channel,
  and so 512 bytes of header, with \<open>headerBytes\<close>, \<open>numDataRecords\<close> and
  \<open>recordDurationSec\<close> blank, is decoded as well.
\<close>

theorem decode_rejects_counterexample:
  "parse zero_range_edf = Inr zero_range_recording \<and>
   map digitalMin (signals zero_range_recording) = [Some 5] \<and>
   map digitalMax (signals zero_range_recording) = [Some 5] \<and>
   map physicalValues (signals zero_range_recording) = [[PosInf, NaN]] \<and>
   parse sparse_edf = Inr sparse_recording \<and>
   length sparse_edf = 480 \<and>
   numSignals (metadata sparse_recording) = Some 1 \<and>
   headerBytes (metadata sparse_recording) = None \<and>
   numDataRecords (metadata sparse_recording) = None \<and>
   recordDurationSec (metadata sparse_recording) = NaN"
  using parse_zero_range_edf parse_sparse length_sparse_edf
  by (simp add: zero_range_recording_def zero_range_channel_header_def sparse_recording_def
      sparse_metadata_def)

text \<open>
  Claim C2, amended. The one error of \<open>parse\<close> is the \<open>RangeError\<close> of the runtime,
  and a failed \<open>parse\<close> returns no recording. It fails when the buffer has fewer than
  256 bytes; when \<open>numSignals\<close> parses to a positive \<open>n\<close> and the buffer has fewer
  than the \<open>256 + 224 * n\<close> bytes that the reads of the channel fields reach; and when
  the day, the month or the year of the start date does not parse. A channel whose
  \<open>digitalMax\<close> equals its \<open>digitalMin\<close> is not rejected: in the recording that
  \<open>parse\<close> returns its \<open>scaleFactor\<close> is \<open>NaN\<close>, \<open>Infinity\<close> or \<open>-Infinity\<close>, and
  none of its decoded values is finite.
\<close>

theorem decode_failures:
  "(length buffer < 256 \<longrightarrow> parse buffer = Inl RangeError) \<and>
   (parseInt (trim (take 4 (drop 252 buffer))) = Some n \<and> 0 < n \<and>
      length buffer < 256 + 224 * nat n \<longrightarrow> parse buffer = Inl RangeError) \<and>
   (256 \<le> length buffer \<and> k < 3 \<and>
      part_int (split_on CHR ''.'' (trim (take 8 (drop 168 buffer)))) k = None
      \<longrightarrow> parse buffer = Inl RangeError) \<and>
   (parse buffer = Inl e \<longrightarrow> e = RangeError) \<and>
   (parse buffer = Inr out \<and> sg \<in> set (signals out) \<and>
      digitalMin sg = Some d \<and> digitalMax sg = Some d
      \<longrightarrow> (scaleFactor sg = NaN \<or> scaleFactor sg = PosInf \<or> scaleFactor sg = NegInf) \<and>
          (\<forall>x. Fin x \<notin> set (physicalValues sg)))"
proof (intro conjI impI)
  assume "length buffer < 256"
  then show "parse buffer = Inl RangeError" by (rule parse_short)
next
  assume a: "parseInt (trim (take 4 (drop 252 buffer))) = Some n \<and> 0 < n \<and>
      length buffer < 256 + 224 * nat n"
  show "parse buffer = Inl RangeError"
  proof (cases "parseHeader buffer")
    case (Inl e)
    then show ?thesis using parseHeader_error[OF Inl] by (simp add: parse_def ebind_def)
  next
    case (Inr h)
    have "loop_count (numSignals h) = nat n"
      using parseHeader_numSignals[OF Inr] a by (simp add: loop_count_def)
    then show ?thesis using parse_short_channels[OF Inr] a by simp
  qed
next
  assume "256 \<le> length buffer \<and> k < 3 \<and>
      part_int (split_on CHR ''.'' (trim (take 8 (drop 168 buffer)))) k = None"
  then show "parse buffer = Inl RangeError" using parse_date by blast
next
  assume "parse buffer = Inl e"
  then show "e = RangeError" by (rule parse_error)
next
  assume a: "parse buffer = Inr out \<and> sg \<in> set (signals out) \<and>
      digitalMin sg = Some d \<and> digitalMax sg = Some d"
  then have "(scaleFactor sg = NaN \<or> scaleFactor sg = PosInf \<or> scaleFactor sg = NegInf) \<and>
         (\<forall>x. Fin x \<notin> set (physicalValues sg))"
    using zero_range_decoded[of buffer out sg d] by blast
  then show "scaleFactor sg = NaN \<or> scaleFactor sg = PosInf \<or> scaleFactor sg = NegInf"
    and "\<forall>x. Fin x \<notin> set (physicalValues sg)" by blast+
qed

text \<open>
  The empty buffer, the 256 bytes of a header that declares one channel, and a header of
  spaces fail; the recording with the zero digital range is decoded, with the scale
  factor \<open>Infinity\<close>.
\<close>

theorem decode_failures_witness:
  "length ([] :: char list) < 256 \<and> parse [] = Inl RangeError \<and>
   parseInt (trim (take 4 (drop 252 (text_fields sparse_header)))) = Some 1 \<and>
   length (text_fields sparse_header) < 256 + 224 * nat 1 \<and>
   parse (text_fields sparse_header) = Inl RangeError \<and>
   256 \<le> length blank_header \<and>
   part_int (split_on CHR ''.'' (trim (take 8 (drop 168 blank_header)))) 0 = None \<and>
   parse blank_header = Inl RangeError \<and>
   parse zero_range_edf = Inr zero_range_recording \<and>
   signals zero_range_recording ! 0 \<in> set (signals zero_range_recording) \<and>
   digitalMin (signals zero_range_recording ! 0) = Some 5 \<and>
   digitalMax (signals zero_range_recording ! 0) = Some 5 \<and>
   scaleFactor (signals zero_range_recording ! 0) = PosInf \<and>
   Fin 0 \<notin> set (physicalValues (signals zero_range_recording ! 0))"
proof -
  let ?sg = "signals zero_range_recording ! 0"
  have 1: "parse [] = Inl RangeError"
    using decode_failures[where buffer = "[]"] by simp
  have n: "parseInt (trim (take 4 (drop 252 (text_fields sparse_header)))) = Some 1"
    unfolding sparse_header_numSignals by (rule example_numbers)
  have l: "length (text_fields sparse_header) < 256 + 224 * nat 1"
    by (simp add: length_sparse_header)
  have 2: "parse (text_fields sparse_header) = Inl RangeError"
    using decode_failures[where buffer = "text_fields sparse_header" and n = 1] n l by simp
  have b: "256 \<le> length blank_header" by (simp add: blank_header_def)
  have p: "part_int (split_on CHR ''.'' (trim (take 8 (drop 168 blank_header)))) 0 = None"
    unfolding blank_header_date by (simp add: part_int_def more_numbers)
  have 3: "parse blank_header = Inl RangeError"
    using decode_failures[where buffer = blank_header and k = 0] b p by simp
  have m: "?sg \<in> set (signals zero_range_recording)"
    and dm: "digitalMin ?sg = Some 5" "digitalMax ?sg = Some 5"
    and sf: "scaleFactor ?sg = PosInf"
    by (simp_all add: zero_range_recording_def zero_range_channel_header_def)
  have 4: "Fin 0 \<notin> set (physicalValues ?sg)"
    using decode_failures[where buffer = zero_range_edf and out = zero_range_recording and sg = ?sg and d = 5]
      parse_zero_range_edf m dm by blast
  show ?thesis using 1 n l 2 b p 3 parse_zero_range_edf m dm sf 4 by simp
qed

end
